theory Spec2Isabelle
  imports Complex_Main
begin

section \<open>Field values\<close>

text \<open>
  The fields of \<^verbatim>\<open>AggregationEfficiency.h\<close> hold C++ \<^verbatim>\<open>double\<close>s. A value is a
  number, the negative zero, an infinity or a NaN: \<open>Fin 0\<close> is \<^verbatim>\<open>+0.0\<close>, \<open>NZero\<close> is
  \<^verbatim>\<open>-0.0\<close>, and \<open>Fin x\<close> with \<open>x \<noteq> 0\<close> is the number \<open>x\<close>.
\<close>

datatype dbl = Fin real | NZero | PInf | NInf | NaN

text \<open>
  The precision and the range of the numbers are parameters of the arithmetic: \<open>rnd\<close>
  takes the exact result of an operation to the number that is stored for it, and a
  stored number beyond \<open>largest\<close> in magnitude is an overflow. The format of a
  \<^verbatim>\<open>double\<close> is \<open>binary64\<close>, defined below.
\<close>

record format =
  rnd :: "real \<Rightarrow> real"
  largest :: real

text \<open>
  What the proofs below use of a format, each time it is assumed: rounding is monotone,
  leaves its own results alone, and leaves \<open>0\<close> and \<open>1\<close> alone; and \<open>1\<close> is in range.
  \<open>binary64\<close> is proved to have these properties.
\<close>

definition well_formed :: "format \<Rightarrow> bool" where
  "well_formed fmt =
     ((\<forall>x y. x \<le> y \<longrightarrow> rnd fmt x \<le> rnd fmt y)
      \<and> (\<forall>x. rnd fmt (rnd fmt x) = rnd fmt x)
      \<and> rnd fmt 0 = 0 \<and> rnd fmt 1 = 1 \<and> 1 \<le> largest fmt)"


text \<open>
  The format binary64: 53 significant bits, exponents from \<open>-1022\<close> to \<open>1023\<close>, round to
  nearest, ties to even. A real \<open>x \<noteq> 0\<close> is rounded on the grid of its binade: the
  exponent is that of \<open>x\<close>, and \<open>-1022\<close> below the normal range, where the numbers are
  subnormal; the step of the grid is 52 binary places below the exponent; and \<open>x\<close> goes
  to the nearest multiple of the step, to the even multiple from half way between two.
  The largest number is \<^verbatim>\<open>(2 - 2^-52) * 2^1023\<close>.
\<close>

definition half_even :: "real \<Rightarrow> int" where
  "half_even x =
     (let n = \<lfloor>x\<rfloor>; f = x - of_int n in
      if f < 1 / 2 then n
      else if 1 / 2 < f then n + 1
      else if even n then n else n + 1)"

definition exponent64 :: "real \<Rightarrow> int" where
  "exponent64 x = max (- 1022) \<lfloor>log 2 \<bar>x\<bar>\<rfloor>"

definition round64 :: "real \<Rightarrow> real" where
  "round64 x =
     (if x = 0 then 0
      else (let q = 2 powr (of_int (exponent64 x) - 52) in q * of_int (half_even (x / q))))"

definition binary64 :: format where
  "binary64 = \<lparr> rnd = round64, largest = (2 - 1 / 2 ^ 52) * 2 ^ 1023 \<rparr>"

text \<open>The sign bit.\<close>

fun negative :: "dbl \<Rightarrow> bool" where
  "negative (Fin x) = (x < 0)"
| "negative NZero = True"
| "negative NInf = True"
| "negative PInf = False"
| "negative NaN = False"

definition signed_zero :: "bool \<Rightarrow> dbl" where
  "signed_zero s = (if s then NZero else Fin 0)"

definition signed_inf :: "bool \<Rightarrow> dbl" where
  "signed_inf s = (if s then NInf else PInf)"

text \<open>The real number a finite value stands for.\<close>

fun finite_value :: "dbl \<Rightarrow> real option" where
  "finite_value (Fin x) = Some x"
| "finite_value NZero = Some 0"
| "finite_value PInf = None"
| "finite_value NInf = None"
| "finite_value NaN = None"

text \<open>
  The value stored for the exact result \<open>v \<noteq> 0\<close> of an operation: the rounded number,
  an infinity of the sign of \<open>v\<close> on overflow, a zero of the sign of \<open>v\<close> on underflow.
\<close>

definition deliver :: "format \<Rightarrow> real \<Rightarrow> dbl" where
  "deliver fmt v =
     (let r = rnd fmt v in
      if largest fmt < \<bar>r\<bar> then signed_inf (v < 0)
      else if r = 0 then signed_zero (v < 0)
      else Fin r)"

text \<open>
  \<^verbatim>\<open>x + y\<close>. A sum of zeros is \<^verbatim>\<open>-0.0\<close> only if both are; adding a zero to a number
  gives that number; numbers that cancel give \<^verbatim>\<open>+0.0\<close>; infinities of opposite sign
  give a NaN.
\<close>

definition fadd :: "format \<Rightarrow> dbl \<Rightarrow> dbl \<Rightarrow> dbl" where
  "fadd fmt x y =
     (if x = NaN \<or> y = NaN then NaN
      else case (finite_value x, finite_value y) of
        (Some a, Some b) \<Rightarrow>
          if a = 0 \<and> b = 0 then signed_zero (negative x \<and> negative y)
          else if b = 0 then x
          else if a = 0 then y
          else if a + b = 0 then Fin 0
          else deliver fmt (a + b)
      | (Some a, None) \<Rightarrow> y
      | (None, Some b) \<Rightarrow> x
      | (None, None) \<Rightarrow> if x = y then x else NaN)"

text \<open>
  \<^verbatim>\<open>x * y\<close>. The sign of the result is the exclusive or of the signs, also for a zero
  and for an infinity; an infinity times a zero is a NaN.
\<close>

definition fmul :: "format \<Rightarrow> dbl \<Rightarrow> dbl \<Rightarrow> dbl" where
  "fmul fmt x y =
     (if x = NaN \<or> y = NaN then NaN
      else case (finite_value x, finite_value y) of
        (Some a, Some b) \<Rightarrow>
          if a * b = 0 then signed_zero (negative x \<noteq> negative y)
          else deliver fmt (a * b)
      | (Some a, None) \<Rightarrow> if a = 0 then NaN else signed_inf (negative x \<noteq> negative y)
      | (None, Some b) \<Rightarrow> if b = 0 then NaN else signed_inf (negative x \<noteq> negative y)
      | (None, None) \<Rightarrow> signed_inf (negative x \<noteq> negative y))"

text \<open>
  \<^verbatim>\<open>x / y\<close>. A number that is not zero over a zero is an infinity, with the exclusive
  or of the signs; a zero over a zero and an infinity over an infinity are NaNs.
\<close>

definition fdiv :: "format \<Rightarrow> dbl \<Rightarrow> dbl \<Rightarrow> dbl" where
  "fdiv fmt x y =
     (if x = NaN \<or> y = NaN then NaN
      else case (finite_value x, finite_value y) of
        (Some a, Some b) \<Rightarrow>
          if b = 0 then (if a = 0 then NaN else signed_inf (negative x \<noteq> negative y))
          else if a = 0 then signed_zero (negative x \<noteq> negative y)
          else deliver fmt (a / b)
      | (Some a, None) \<Rightarrow> signed_zero (negative x \<noteq> negative y)
      | (None, Some b) \<Rightarrow> signed_inf (negative x \<noteq> negative y)
      | (None, None) \<Rightarrow> NaN)"

text \<open>
  \<^verbatim>\<open>x > y\<close>. False when either is a NaN; the two zeros are equal.
\<close>

definition fgt :: "dbl \<Rightarrow> dbl \<Rightarrow> bool" where
  "fgt x y =
     (x \<noteq> NaN \<and> y \<noteq> NaN \<and>
      (case (finite_value x, finite_value y) of
         (Some a, Some b) \<Rightarrow> b < a
       | (Some a, None) \<Rightarrow> y = NInf
       | (None, Some b) \<Rightarrow> x = PInf
       | (None, None) \<Rightarrow> x = PInf \<and> y = NInf))"

text \<open>The other two orders, used to state properties: \<^verbatim>\<open>a < b\<close> and \<^verbatim>\<open>a <= b\<close>.\<close>

definition flt :: "dbl \<Rightarrow> dbl \<Rightarrow> bool" where
  "flt a b = fgt b a"

definition fle :: "dbl \<Rightarrow> dbl \<Rightarrow> bool" where
  "fle a b = (a \<noteq> NaN \<and> b \<noteq> NaN \<and> \<not> fgt a b)"

text \<open>A value that is a number of the half-open unit interval, and of the closed one.\<close>

fun in_unit_interval :: "dbl \<Rightarrow> bool" where
  "in_unit_interval (Fin x) = (0 \<le> x \<and> x < 1)"
| "in_unit_interval _ = False"

fun in_closed_unit_interval :: "dbl \<Rightarrow> bool" where
  "in_closed_unit_interval (Fin x) = (0 \<le> x \<and> x \<le> 1)"
| "in_closed_unit_interval _ = False"

text \<open>A zero of either sign; a zero or a NaN; \<^verbatim>\<open>+0.0\<close> with \<^verbatim>\<open>-0.0\<close>.\<close>

definition is_zero :: "dbl \<Rightarrow> bool" where
  "is_zero x = (x = Fin 0 \<or> x = NZero)"

definition zero_or_nan :: "dbl \<Rightarrow> bool" where
  "zero_or_nan x = (is_zero x \<or> x = NaN)"

text \<open>A number or a zero: neither an infinity nor a NaN.\<close>

definition finite_dbl :: "dbl \<Rightarrow> bool" where
  "finite_dbl x = (finite_value x \<noteq> None)"

definition opposite_zeros :: "dbl \<Rightarrow> dbl \<Rightarrow> bool" where
  "opposite_zeros x y = (x = Fin 0 \<and> y = NZero \<or> x = NZero \<and> y = Fin 0)"

section \<open>The kernel at one point\<close>

text \<open>
  \<^verbatim>\<open>ri * *rho_ * (ri + rj) * (ri + rj) * *eps_\<close>, with \<open>r\<close> the radius the inner
  \<^verbatim>\<open>cond\<close> has chosen; C++ multiplies from the left.
\<close>

definition bulk_divisor :: "format \<Rightarrow> dbl \<Rightarrow> dbl \<Rightarrow> dbl \<Rightarrow> dbl \<Rightarrow> dbl \<Rightarrow> dbl" where
  "bulk_divisor fmt r rho eps ri rj =
     fmul fmt (fmul fmt (fmul fmt (fmul fmt r rho) (fadd fmt ri rj)) (fadd fmt ri rj)) eps"

text \<open>\<^verbatim>\<open>*rho_ * (ri + rj) * (ri + rj) * *eps_\<close>\<close>

definition const_divisor :: "format \<Rightarrow> dbl \<Rightarrow> dbl \<Rightarrow> dbl \<Rightarrow> dbl \<Rightarrow> dbl" where
  "const_divisor fmt rho eps ri rj =
     fmul fmt (fmul fmt (fmul fmt rho (fadd fmt ri rj)) (fadd fmt ri rj)) eps"

text \<open>The first assignment to \<^verbatim>\<open>*tmp\<close> in the BULK_DIFFUSION and MONOSURFACE branches.\<close>

definition bulk_candidate ::
  "format \<Rightarrow> dbl \<Rightarrow> dbl \<Rightarrow> dbl \<Rightarrow> dbl \<Rightarrow> dbl \<Rightarrow> dbl \<Rightarrow> dbl" where
  "bulk_candidate fmt l g0 rho eps ri rj =
     (if fgt rho (Fin 0) \<and> fgt eps (Fin 0)
      then (if fgt ri rj
            then fdiv fmt (fmul fmt l g0) (bulk_divisor fmt ri rho eps ri rj)
            else fdiv fmt (fmul fmt l g0) (bulk_divisor fmt rj rho eps ri rj))
      else Fin 0)"

text \<open>The first assignment to \<^verbatim>\<open>*tmp\<close> in the CONSTANT / KINETIC branch.\<close>

definition const_candidate ::
  "format \<Rightarrow> dbl \<Rightarrow> dbl \<Rightarrow> dbl \<Rightarrow> dbl \<Rightarrow> dbl \<Rightarrow> dbl \<Rightarrow> dbl" where
  "const_candidate fmt l g0 rho eps ri rj =
     (if fgt rho (Fin 0) \<and> fgt eps (Fin 0)
      then fdiv fmt (fmul fmt l g0) (const_divisor fmt rho eps ri rj)
      else Fin 0)"

text \<open>\<^verbatim>\<open>cond( *tmp > 0.0, *tmp )( 0.0 )\<close>\<close>

definition clamp :: "dbl \<Rightarrow> dbl" where
  "clamp t = (if fgt t (Fin 0) then t else Fin 0)"

text \<open>\<^verbatim>\<open>*tmp / (1.0 + *tmp)\<close>\<close>

definition saturate :: "format \<Rightarrow> dbl \<Rightarrow> dbl" where
  "saturate fmt t = fdiv fmt t (fadd fmt (Fin 1) t)"

section \<open>Fields and the expression object\<close>

text \<open>
  A spatial field gives a value at every point; \<^verbatim>\<open><<=\<close> assigns a whole field, and
  the operators and \<^verbatim>\<open>cond\<close> work point by point.
\<close>

type_synonym 'p field = "'p \<Rightarrow> dbl"

definition uniform :: "dbl \<Rightarrow> 'p field" where
  "uniform c = (\<lambda>p. c)"

text \<open>
  The three statements of a loop body, for the radii fields \<open>ri\<close> and \<open>rj\<close>: the
  candidate goes to \<^verbatim>\<open>*tmp\<close>, \<^verbatim>\<open>*tmp\<close> is clamped, and the value assigned to
  \<^verbatim>\<open>*results[idx]\<close> is built from \<^verbatim>\<open>*tmp\<close>.
\<close>

definition bulk_efficiency ::
  "format \<Rightarrow> dbl \<Rightarrow> 'p field \<Rightarrow> 'p field \<Rightarrow> 'p field \<Rightarrow> 'p field \<Rightarrow> 'p field \<Rightarrow> 'p field" where
  "bulk_efficiency fmt l g0 rho eps ri rj =
     (let tmp = (\<lambda>p. bulk_candidate fmt l (g0 p) (rho p) (eps p) (ri p) (rj p));
          tmp = (\<lambda>p. clamp (tmp p))
      in (\<lambda>p. saturate fmt (tmp p)))"

definition const_efficiency ::
  "format \<Rightarrow> dbl \<Rightarrow> 'p field \<Rightarrow> 'p field \<Rightarrow> 'p field \<Rightarrow> 'p field \<Rightarrow> 'p field \<Rightarrow> 'p field" where
  "const_efficiency fmt l g0 rho eps ri rj =
     (let tmp = (\<lambda>p. const_candidate fmt l (g0 p) (rho p) (eps p) (ri p) (rj p));
          tmp = (\<lambda>p. clamp (tmp p))
      in (\<lambda>p. saturate fmt (tmp p)))"

text \<open>
  The members of the class: the tags and parameters fixed by the constructor, and the
  field pointers set by \<^verbatim>\<open>bind_fields\<close>. The constructor leaves the three pointers
  uninitialised (\<open>None\<close>) and the vector empty. A pointer to a field is modelled by the
  field it points to. \<open>'t\<close> is \<^verbatim>\<open>Expr::Tag\<close>. A name cannot end in an underscore
  here, so the member \<^verbatim>\<open>l_\<close> is \<open>l_m\<close>, and so on.
\<close>

record ('t, 'p) aggregation_efficiency =
  abscissaeTagList_m :: "'t list"
  growthCoefTag_m :: 't
  dissipationTag_m :: 't
  densityTag_m :: 't
  l_m :: dbl
  growthModel_m :: string
  abscissae_m :: "'p field list"
  g0_m :: "'p field option"
  eps_m :: "'p field option"
  rho_m :: "'p field option"

definition AggregationEfficiency ::
  "'t list \<Rightarrow> 't \<Rightarrow> 't \<Rightarrow> 't \<Rightarrow> dbl \<Rightarrow> string \<Rightarrow> ('t, 'p) aggregation_efficiency" where
  "AggregationEfficiency abscissaeTagList growthCoefTag dissipationTag densityTag
       lengthParam growthModel =
     \<lparr> abscissaeTagList_m = abscissaeTagList,
       growthCoefTag_m = growthCoefTag,
       dissipationTag_m = dissipationTag,
       densityTag_m = densityTag,
       l_m = lengthParam,
       growthModel_m = growthModel,
       abscissae_m = [],
       g0_m = None, eps_m = None, rho_m = None \<rparr>"

datatype error = FieldNotFound | NoResultField | ResultIndexOutOfRange | UnboundField

section \<open>Binding the fields\<close>

text \<open>
  The field manager is not part of this file: it is the parameter \<open>fm\<close>, a partial map
  from tags to fields, and \<^verbatim>\<open>field_ref\<close> of a tag it does not know throws. The
  exception leaves \<^verbatim>\<open>bind_fields\<close> at once, with the members as they are at that
  moment: \<open>Inl\<close> carries that state.
\<close>

fun push_abscissae ::
  "('t \<Rightarrow> 'p field option) \<Rightarrow> 't list \<Rightarrow> 'p field list
     \<Rightarrow> 'p field list + 'p field list" where
  "push_abscissae fm [] acc = Inr acc"
| "push_abscissae fm (t # ts) acc =
     (case fm t of
        None \<Rightarrow> Inl acc
      | Some f \<Rightarrow> push_abscissae fm ts (acc @ [f]))"

definition bind_fields ::
  "('t \<Rightarrow> 'p field option) \<Rightarrow> ('t, 'p) aggregation_efficiency
     \<Rightarrow> (error \<times> ('t, 'p) aggregation_efficiency) + ('t, 'p) aggregation_efficiency" where
  "bind_fields fm obj =
     (case push_abscissae fm (abscissaeTagList_m obj) [] of
        Inl acc \<Rightarrow> Inl (FieldNotFound, obj\<lparr>abscissae_m := acc\<rparr>)
      | Inr acc \<Rightarrow>
          (let obj = obj\<lparr>abscissae_m := acc\<rparr> in
           case fm (growthCoefTag_m obj) of
             None \<Rightarrow> Inl (FieldNotFound, obj)
           | Some g \<Rightarrow>
               (let obj = obj\<lparr>g0_m := Some g\<rparr> in
                case fm (dissipationTag_m obj) of
                  None \<Rightarrow> Inl (FieldNotFound, obj)
                | Some e \<Rightarrow>
                    (let obj = obj\<lparr>eps_m := Some e\<rparr> in
                     case fm (densityTag_m obj) of
                       None \<Rightarrow> Inl (FieldNotFound, obj)
                     | Some r \<Rightarrow> Inr (obj\<lparr>rho_m := Some r\<rparr>)))))"

text \<open>
  A sequence of calls, one field manager each; the first exception ends it.
\<close>

fun bind_calls ::
  "('t \<Rightarrow> 'p field option) list \<Rightarrow> ('t, 'p) aggregation_efficiency
     \<Rightarrow> (error \<times> ('t, 'p) aggregation_efficiency) + ('t, 'p) aggregation_efficiency" where
  "bind_calls [] obj = Inr obj"
| "bind_calls (fm # fms) obj =
     (case bind_fields fm obj of
        Inl e \<Rightarrow> Inl e
      | Inr obj' \<Rightarrow> bind_calls fms obj')"

section \<open>Evaluation\<close>

text \<open>
  A loop body reads through the three pointers and through \<^verbatim>\<open>abscissae_[i]\<close> and
  \<^verbatim>\<open>abscissae_[j]\<close>; both indices are below \<^verbatim>\<open>nEnv = abscissae_.size()\<close>. Reading
  through a pointer that was never set is an error of the model.
\<close>

definition bulk_pair ::
  "format \<Rightarrow> ('t, 'p) aggregation_efficiency \<Rightarrow> nat \<Rightarrow> nat \<Rightarrow> error + 'p field" where
  "bulk_pair fmt obj i j =
     (case (g0_m obj, eps_m obj, rho_m obj) of
        (Some g0, Some eps, Some rho) \<Rightarrow>
          Inr (bulk_efficiency fmt (l_m obj) g0 rho eps (abscissae_m obj ! i) (abscissae_m obj ! j))
      | _ \<Rightarrow> Inl UnboundField)"

definition const_pair ::
  "format \<Rightarrow> ('t, 'p) aggregation_efficiency \<Rightarrow> nat \<Rightarrow> nat \<Rightarrow> error + 'p field" where
  "const_pair fmt obj i j =
     (case (g0_m obj, eps_m obj, rho_m obj) of
        (Some g0, Some eps, Some rho) \<Rightarrow>
          Inr (const_efficiency fmt (l_m obj) g0 rho eps (abscissae_m obj ! i) (abscissae_m obj ! j))
      | _ \<Rightarrow> Inl UnboundField)"

text \<open>
  \<^verbatim>\<open>for (int j = 0; j < nEnv; j++) { ...; *results[idx++] <<= ...; }\<close>: the state
  of the loop is \<open>j\<close>, \<open>idx\<close> and the results. A write past the end of the vector is an
  error of the model. The sizes are those of vectors of fields, far below \<open>2^31\<close>, so
  the \<^verbatim>\<open>int\<close> counters are natural numbers here.
\<close>

function inner_loop ::
  "(nat \<Rightarrow> nat \<Rightarrow> error + 'p field) \<Rightarrow> nat \<Rightarrow> nat \<Rightarrow> nat \<Rightarrow> nat \<Rightarrow> 'p field list
     \<Rightarrow> error + (nat \<times> 'p field list)" where
  "inner_loop body nEnv i j idx results =
     (if j < nEnv
      then (case body i j of
              Inl e \<Rightarrow> Inl e
            | Inr v \<Rightarrow>
                if idx < length results
                then inner_loop body nEnv i (Suc j) (Suc idx) (results[idx := v])
                else Inl ResultIndexOutOfRange)
      else Inr (idx, results))"
  by pat_completeness auto
termination
  by (relation "measure (\<lambda>(body, nEnv, i, j, idx, results). nEnv - j)") auto

declare inner_loop.simps [simp del]

text \<open>\<^verbatim>\<open>for (int i = 0; i < nEnv; i++) { for (int j = 0; ...) ... }\<close>\<close>

function outer_loop ::
  "(nat \<Rightarrow> nat \<Rightarrow> error + 'p field) \<Rightarrow> nat \<Rightarrow> nat \<Rightarrow> nat \<Rightarrow> 'p field list
     \<Rightarrow> error + (nat \<times> 'p field list)" where
  "outer_loop body nEnv i idx results =
     (if i < nEnv
      then (case inner_loop body nEnv i 0 idx results of
              Inl e \<Rightarrow> Inl e
            | Inr (idx', results') \<Rightarrow> outer_loop body nEnv (Suc i) idx' results')
      else Inr (idx, results))"
  by pat_completeness auto
termination
  by (relation "measure (\<lambda>(body, nEnv, i, idx, results). nEnv - i)") auto

declare outer_loop.simps [simp del]

text \<open>
  \<^verbatim>\<open>evaluate\<close> takes the vector of result fields (\<^verbatim>\<open>get_value_vec()\<close>) and returns
  it as the call leaves it. The temporary is shaped after \<^verbatim>\<open>*results[0]\<close>, which
  does not exist in an empty vector. A growth model that is none of the four names runs
  no branch.
\<close>

definition evaluate ::
  "format \<Rightarrow> ('t, 'p) aggregation_efficiency \<Rightarrow> 'p field list \<Rightarrow> error + 'p field list" where
  "evaluate fmt obj results =
     (if results = [] then Inl NoResultField
      else
        (let nEnv = length (abscissae_m obj); idx = 0 in
         if growthModel_m obj = ''BULK_DIFFUSION''
         then map_sum id snd (outer_loop (bulk_pair fmt obj) nEnv 0 idx results)
         else if growthModel_m obj = ''MONOSURFACE''
         then map_sum id snd (outer_loop (bulk_pair fmt obj) nEnv 0 idx results)
         else if growthModel_m obj = ''CONSTANT'' \<or> growthModel_m obj = ''KINETIC''
         then map_sum id snd (outer_loop (const_pair fmt obj) nEnv 0 idx results)
         else Inr results))"

text \<open>The value of result field \<open>k\<close> at point \<open>p\<close> after a call, if the call returned.\<close>

definition value_at :: "error + 'p field list \<Rightarrow> nat \<Rightarrow> 'p \<Rightarrow> dbl option" where
  "value_at r k p =
     (case r of
        Inl e \<Rightarrow> None
      | Inr fs \<Rightarrow> if k < length fs then Some ((fs ! k) p) else None)"

definition recognized :: "string \<Rightarrow> bool" where
  "recognized m =
     (m = ''BULK_DIFFUSION'' \<or> m = ''MONOSURFACE'' \<or> m = ''CONSTANT'' \<or> m = ''KINETIC'')"

text \<open>
  For a recognized growth model and bound fields \<open>g0\<close>, \<open>rho\<close>, \<open>eps\<close>: what the first
  assignment of iteration \<open>(i, j)\<close> gives \<^verbatim>\<open>*tmp\<close> at point \<open>p\<close>. It names the
  branch \<^verbatim>\<open>evaluate\<close> takes, to state properties of all four models in one sentence.
\<close>

definition raw_candidate ::
  "format \<Rightarrow> ('t, 'p) aggregation_efficiency \<Rightarrow> 'p field \<Rightarrow> 'p field \<Rightarrow> 'p field
     \<Rightarrow> nat \<Rightarrow> nat \<Rightarrow> 'p \<Rightarrow> dbl" where
  "raw_candidate fmt obj g0 rho eps i j p =
     (if growthModel_m obj = ''BULK_DIFFUSION'' \<or> growthModel_m obj = ''MONOSURFACE''
      then bulk_candidate fmt (l_m obj) (g0 p) (rho p) (eps p)
             ((abscissae_m obj ! i) p) ((abscissae_m obj ! j) p)
      else const_candidate fmt (l_m obj) (g0 p) (rho p) (eps p)
             ((abscissae_m obj ! i) p) ((abscissae_m obj ! j) p))"

text \<open>The three pointers of \<open>obj\<close> are set, to the fields \<open>g0\<close>, \<open>rho\<close> and \<open>eps\<close>.\<close>

definition bound_to ::
  "('t, 'p) aggregation_efficiency \<Rightarrow> 'p field \<Rightarrow> 'p field \<Rightarrow> 'p field \<Rightarrow> bool" where
  "bound_to obj g0 rho eps =
     (g0_m obj = Some g0 \<and> rho_m obj = Some rho \<and> eps_m obj = Some eps)"

text \<open>
  The scenarios of the specification: one value for every field, the same at every
  point, and all pointers bound.
\<close>

definition scenario ::
  "string \<Rightarrow> real \<Rightarrow> real \<Rightarrow> real \<Rightarrow> real \<Rightarrow> real list \<Rightarrow> (nat, 'p) aggregation_efficiency" where
  "scenario model l growth density dissipation radii =
     \<lparr> abscissaeTagList_m = [0..<length radii],
       growthCoefTag_m = length radii,
       dissipationTag_m = length radii + 1,
       densityTag_m = length radii + 2,
       l_m = Fin l,
       growthModel_m = model,
       abscissae_m = map (\<lambda>r. uniform (Fin r)) radii,
       g0_m = Some (uniform (Fin growth)),
       eps_m = Some (uniform (Fin dissipation)),
       rho_m = Some (uniform (Fin density)) \<rparr>"

text \<open>
  The radius the inner \<^verbatim>\<open>cond\<close> of the BULK_DIFFUSION and MONOSURFACE branches divides
  by: \<open>ri\<close> if \<^verbatim>\<open>ri > rj\<close>, else \<open>rj\<close>.
\<close>

definition larger :: "dbl \<Rightarrow> dbl \<Rightarrow> dbl" where
  "larger ri rj = (if fgt ri rj then ri else rj)"

text \<open>
  The divisor of the division in iteration \<open>(i, j)\<close> at point \<open>p\<close>, by the branch
  \<^verbatim>\<open>evaluate\<close> takes.
\<close>

definition raw_divisor ::
  "format \<Rightarrow> ('t, 'p) aggregation_efficiency \<Rightarrow> 'p field \<Rightarrow> 'p field
     \<Rightarrow> nat \<Rightarrow> nat \<Rightarrow> 'p \<Rightarrow> dbl" where
  "raw_divisor fmt obj rho eps i j p =
     (if growthModel_m obj = ''BULK_DIFFUSION'' \<or> growthModel_m obj = ''MONOSURFACE''
      then bulk_divisor fmt (larger ((abscissae_m obj ! i) p) ((abscissae_m obj ! j) p))
             (rho p) (eps p) ((abscissae_m obj ! i) p) ((abscissae_m obj ! j) p)
      else const_divisor fmt (rho p) (eps p)
             ((abscissae_m obj ! i) p) ((abscissae_m obj ! j) p))"

text \<open>
  What the divisor holds before it is multiplied by \<^verbatim>\<open>(ri + rj)\<close>: \<^verbatim>\<open>ri * *rho_\<close> or
  \<^verbatim>\<open>rj * *rho_\<close> in the BULK_DIFFUSION and MONOSURFACE branches, \<^verbatim>\<open>*rho_\<close> in the other.
\<close>

definition divisor_head ::
  "format \<Rightarrow> ('t, 'p) aggregation_efficiency \<Rightarrow> 'p field \<Rightarrow> nat \<Rightarrow> nat \<Rightarrow> 'p \<Rightarrow> dbl" where
  "divisor_head fmt obj rho i j p =
     (if growthModel_m obj = ''BULK_DIFFUSION'' \<or> growthModel_m obj = ''MONOSURFACE''
      then fmul fmt (larger ((abscissae_m obj ! i) p) ((abscissae_m obj ! j) p)) (rho p)
      else rho p)"


text \<open>
  A second format, to run the scenarios of the specification with the values it expects,
  which are fractions such as \<open>1 / 13\<close>: every real up to \<^verbatim>\<open>2^1024\<close> is stored as it is.
\<close>

definition unrounded :: format where
  "unrounded = \<lparr> rnd = (\<lambda>x. x), largest = 2 ^ 1024 \<rparr>"

text \<open>A value that rounding leaves as it is; every result of an operation is one.\<close>

definition stored :: "format \<Rightarrow> dbl \<Rightarrow> bool" where
  "stored fmt t = (case t of Fin x \<Rightarrow> rnd fmt x = x | _ \<Rightarrow> True)"

section \<open>The nested iteration\<close>

lemma inner_loop_spec:
  assumes "\<And>j. j < nEnv \<Longrightarrow> body i j = Inr (f j)"
      and "j \<le> nEnv" and "idx + (nEnv - j) \<le> length rs"
  shows "\<exists>rs'. inner_loop body nEnv i j idx rs = Inr (idx + (nEnv - j), rs')
          \<and> length rs' = length rs
          \<and> (\<forall>m. rs' ! m = (if idx \<le> m \<and> m < idx + (nEnv - j) then f (j + (m - idx)) else rs ! m))"
  using assms
proof (induction body nEnv i j idx rs rule: inner_loop.induct)
  case (1 body nEnv i j idx results)
  show ?case
  proof (cases "j < nEnv")
    case False
    then show ?thesis using "1.prems" by (subst inner_loop.simps) auto
  next
    case True
    have b: "body i j = Inr (f j)" using True "1.prems"(1) by simp
    have lt: "idx < length results" using True "1.prems"(3) by simp
    have j': "Suc j \<le> nEnv" using True by simp
    have room: "Suc idx + (nEnv - Suc j) \<le> length (results[idx := f j])"
      using True "1.prems"(3) by simp
    have "\<exists>rs'. inner_loop body nEnv i (Suc j) (Suc idx) (results[idx := f j])
              = Inr (Suc idx + (nEnv - Suc j), rs')
          \<and> length rs' = length (results[idx := f j])
          \<and> (\<forall>m. rs' ! m = (if Suc idx \<le> m \<and> m < Suc idx + (nEnv - Suc j)
                             then f (Suc j + (m - Suc idx)) else results[idx := f j] ! m))"
      by (rule "1.IH" [OF True b lt "1.prems"(1) j' room])
    then obtain rs' where r: "inner_loop body nEnv i (Suc j) (Suc idx) (results[idx := f j])
              = Inr (Suc idx + (nEnv - Suc j), rs')"
      and len: "length rs' = length results"
      and nth: "\<And>m. rs' ! m = (if Suc idx \<le> m \<and> m < Suc idx + (nEnv - Suc j)
                             then f (Suc j + (m - Suc idx)) else results[idx := f j] ! m)"
      by auto
    have cnt: "Suc idx + (nEnv - Suc j) = idx + (nEnv - j)" using True by arith
    have eq: "inner_loop body nEnv i j idx results = Inr (idx + (nEnv - j), rs')"
      using True b lt r cnt by (subst inner_loop.simps) simp
    have "rs' ! m = (if idx \<le> m \<and> m < idx + (nEnv - j) then f (j + (m - idx)) else results ! m)" for m
    proof (cases "m = idx")
      case True
      have "rs' ! idx = f j" using nth [of idx] lt by simp
      moreover have "idx \<le> idx \<and> idx < idx + (nEnv - j)" using \<open>j < nEnv\<close> by arith
      ultimately show ?thesis unfolding True by (simp only: if_True diff_self_eq_0 add_0_right simp_thms)
    next
      case False
      have "idx \<le> m \<Longrightarrow> Suc j + (m - Suc idx) = j + (m - idx)" using False by arith
      then show ?thesis using nth [of m] False cnt by auto
    qed
    then show ?thesis using eq len by blast
  qed
qed

lemma outer_loop_spec:
  assumes "\<And>i j. i < nEnv \<Longrightarrow> j < nEnv \<Longrightarrow> body i j = Inr (f i j)"
      and "i \<le> nEnv" and "idx + (nEnv - i) * nEnv \<le> length rs"
  shows "\<exists>rs'. outer_loop body nEnv i idx rs = Inr (idx + (nEnv - i) * nEnv, rs')
          \<and> length rs' = length rs
          \<and> (\<forall>m. rs' ! m = (if idx \<le> m \<and> m < idx + (nEnv - i) * nEnv
                             then f (i + (m - idx) div nEnv) ((m - idx) mod nEnv) else rs ! m))"
  using assms
proof (induction body nEnv i idx rs rule: outer_loop.induct)
  case (1 body nEnv i idx results)
  show ?case
  proof (cases "i < nEnv")
    case False
    then show ?thesis using "1.prems" by (subst outer_loop.simps) auto
  next
    case True
    have "nEnv - i = Suc (nEnv - Suc i)" using True by arith
    then have sz: "(nEnv - i) * nEnv = nEnv + (nEnv - Suc i) * nEnv" by simp
    have room: "idx + (nEnv - 0) \<le> length results"
      using "1.prems"(3) sz by simp
    have "\<exists>rs'. inner_loop body nEnv i 0 idx results = Inr (idx + (nEnv - 0), rs')
          \<and> length rs' = length results
          \<and> (\<forall>m. rs' ! m = (if idx \<le> m \<and> m < idx + (nEnv - 0) then f i (0 + (m - idx)) else results ! m))"
      using "1.prems"(1) True room by (intro inner_loop_spec) auto
    then obtain r1 where r1: "inner_loop body nEnv i 0 idx results = Inr (idx + nEnv, r1)"
      and len1: "length r1 = length results"
      and nth1: "\<And>m. r1 ! m = (if idx \<le> m \<and> m < idx + nEnv then f i (m - idx) else results ! m)"
      by auto
    have i': "Suc i \<le> nEnv" using True by simp
    have room2: "idx + nEnv + (nEnv - Suc i) * nEnv \<le> length r1"
      using "1.prems"(3) sz len1 by simp
    have "\<exists>rs'. outer_loop body nEnv (Suc i) (idx + nEnv) r1
              = Inr (idx + nEnv + (nEnv - Suc i) * nEnv, rs')
          \<and> length rs' = length r1
          \<and> (\<forall>m. rs' ! m = (if idx + nEnv \<le> m \<and> m < idx + nEnv + (nEnv - Suc i) * nEnv
                then f (Suc i + (m - (idx + nEnv)) div nEnv) ((m - (idx + nEnv)) mod nEnv)
                else r1 ! m))"
      by (rule "1.IH" [OF True r1 refl "1.prems"(1) i' room2])
    then obtain r2 where r2: "outer_loop body nEnv (Suc i) (idx + nEnv) r1
              = Inr (idx + nEnv + (nEnv - Suc i) * nEnv, r2)"
      and len2: "length r2 = length r1"
      and nth2: "\<And>m. r2 ! m = (if idx + nEnv \<le> m \<and> m < idx + nEnv + (nEnv - Suc i) * nEnv
                then f (Suc i + (m - (idx + nEnv)) div nEnv) ((m - (idx + nEnv)) mod nEnv)
                else r1 ! m)"
      by auto
    have eq: "outer_loop body nEnv i idx results = Inr (idx + (nEnv - i) * nEnv, r2)"
      using True r1 r2 sz by (subst outer_loop.simps) simp
    have "r2 ! m = (if idx \<le> m \<and> m < idx + (nEnv - i) * nEnv
                   then f (i + (m - idx) div nEnv) ((m - idx) mod nEnv) else results ! m)" for m
    proof (cases "idx + nEnv \<le> m")
      case False
      then show ?thesis using nth1 [of m] nth2 [of m] sz by simp
    next
      case ge: True
      then have d: "m - idx = nEnv + (m - (idx + nEnv))" by simp
      have "(m - idx) div nEnv = Suc ((m - (idx + nEnv)) div nEnv)"
        using True by (subst d) (simp del: diff_diff_left)
      moreover have "(m - idx) mod nEnv = (m - (idx + nEnv)) mod nEnv"
        by (subst d) (simp del: diff_diff_left)
      ultimately show ?thesis using nth1 [of m] nth2 [of m] sz ge by simp
    qed
    then show ?thesis using eq len1 len2 by simp
  qed
qed

section \<open>Facts about the arithmetic\<close>

lemma fadd_commute: "fadd fmt a b = fadd fmt b a"
  by (cases a; cases b) (auto simp: fadd_def add.commute)

lemma fadd_NaN: "a = NaN \<or> b = NaN \<Longrightarrow> fadd fmt a b = NaN"
  by (auto simp: fadd_def)

lemma fmul_NaN: "a = NaN \<or> b = NaN \<Longrightarrow> fmul fmt a b = NaN"
  by (auto simp: fmul_def)

lemma fdiv_NaN_right: "fdiv fmt a NaN = NaN"
  by (simp add: fdiv_def)

lemma fgt_zero_cases: "fgt t (Fin 0) \<longleftrightarrow> (\<exists>x. t = Fin x \<and> 0 < x) \<or> t = PInf"
  by (cases t) (auto simp: fgt_def)

lemma fle_zero_not_gt: "fle a (Fin 0) \<Longrightarrow> \<not> fgt a (Fin 0)"
  by (simp add: fle_def)

lemma flt_zero_not_gt: "flt a (Fin 0) \<Longrightarrow> \<not> fgt a (Fin 0)"
  by (cases a) (auto simp: flt_def fgt_def)

lemma saturate_zero: "saturate fmt (Fin 0) = Fin 0"
  by (simp add: saturate_def fadd_def fdiv_def signed_zero_def)

lemma saturate_clamp_zero: "\<not> fgt t (Fin 0) \<Longrightarrow> saturate fmt (clamp t) = Fin 0"
  by (simp add: clamp_def saturate_zero)

lemma saturate_PInf: "saturate fmt PInf = NaN"
  by (simp add: saturate_def fadd_def fdiv_def)

text \<open>Rounding keeps the sign, and what an operation stores is stored as it is.\<close>

lemma rnd_nonneg: "well_formed fmt \<Longrightarrow> 0 \<le> v \<Longrightarrow> 0 \<le> rnd fmt v"
  unfolding well_formed_def by metis


lemma rnd_mono: "well_formed fmt \<Longrightarrow> v \<le> w \<Longrightarrow> rnd fmt v \<le> rnd fmt w"
  unfolding well_formed_def by blast

lemma rnd_idem: "well_formed fmt \<Longrightarrow> rnd fmt (rnd fmt v) = rnd fmt v"
  unfolding well_formed_def by blast


lemma stored_deliver: "well_formed fmt \<Longrightarrow> stored fmt (deliver fmt v)"
  by (simp add: deliver_def stored_def Let_def signed_inf_def signed_zero_def
      rnd_idem well_formed_def)

lemma stored_fdiv: "well_formed fmt \<Longrightarrow> stored fmt (fdiv fmt x y)"
  by (cases x; cases y)
    (auto simp: fdiv_def stored_deliver, auto simp: stored_def signed_inf_def signed_zero_def well_formed_def)

lemma deliver_pos:
  assumes "well_formed fmt" "0 < v"
  shows "deliver fmt v = PInf \<or> (\<exists>r. deliver fmt v = Fin r \<and> 0 \<le> r \<and> r = rnd fmt v)"
  using rnd_nonneg [OF assms(1), of v] assms(2)
  by (auto simp: deliver_def Let_def signed_inf_def signed_zero_def)

lemma saturate_range:
  assumes wf: "well_formed fmt" and st: "rnd fmt x = x" and pos: "0 < x"
  shows "in_closed_unit_interval (saturate fmt (Fin x))"
proof -
  have one: "rnd fmt 1 = 1" and zero: "rnd fmt 0 = 0" and big: "1 \<le> largest fmt"
    using wf by (simp_all add: well_formed_def)
  have s: "fadd fmt (Fin 1) (Fin x) = deliver fmt (1 + x)"
    using pos by (simp add: fadd_def)
  from deliver_pos [OF wf, of "1 + x"] pos
  consider (inf) "deliver fmt (1 + x) = PInf"
    | (fin) r where "deliver fmt (1 + x) = Fin r" "r = rnd fmt (1 + x)"
    by auto
  then show ?thesis
  proof cases
    case inf
    then show ?thesis using pos by (simp add: saturate_def s fdiv_def signed_zero_def)
  next
    case fin
    have "rnd fmt 1 \<le> rnd fmt (1 + x)" using pos by (intro rnd_mono [OF wf]) simp
    then have r1: "1 \<le> r" using fin(2) one by simp
    have "rnd fmt x \<le> rnd fmt (1 + x)" by (intro rnd_mono [OF wf]) simp
    then have rx: "x \<le> r" using fin(2) st by simp
    have q: "0 < x / r" "x / r \<le> 1" using pos r1 rx by simp_all
    have "rnd fmt (x / r) \<le> rnd fmt 1" using q(2) by (rule rnd_mono [OF wf])
    then have le1: "rnd fmt (x / r) \<le> 1" using one by simp
    have ge0: "0 \<le> rnd fmt (x / r)" using q(1) by (intro rnd_nonneg [OF wf]) simp
    have "saturate fmt (Fin x) = deliver fmt (x / r)"
      using pos r1 by (simp add: saturate_def s fin(1) fdiv_def)
    moreover have "in_closed_unit_interval (deliver fmt (x / r))"
      using le1 ge0 big q(1) by (auto simp: deliver_def Let_def signed_inf_def signed_zero_def)
    ultimately show ?thesis by simp
  qed
qed

lemma saturate_clamp_range:
  assumes "well_formed fmt" "stored fmt t"
  shows "if t = PInf then saturate fmt (clamp t) = NaN
         else in_closed_unit_interval (saturate fmt (clamp t))"
proof (cases "fgt t (Fin 0)")
  case False
  then have "t \<noteq> PInf" by (auto simp: fgt_def)
  then show ?thesis using False by (simp add: saturate_clamp_zero)
next
  case True
  then consider x where "t = Fin x" "0 < x" | "t = PInf"
    by (auto simp: fgt_zero_cases)
  then show ?thesis
  proof cases
    case 1
    then have "rnd fmt x = x" using assms(2) by (simp add: stored_def)
    from saturate_range [OF assms(1) this 1(2)] show ?thesis
      using 1 True by (simp add: clamp_def)
  next
    case 2
    then show ?thesis using True by (simp add: clamp_def saturate_PInf)
  qed
qed

section \<open>Facts about the kernel at one point\<close>

lemma bulk_candidate_larger:
  "bulk_candidate fmt l g0 rho eps ri rj =
     (if fgt rho (Fin 0) \<and> fgt eps (Fin 0)
      then fdiv fmt (fmul fmt l g0) (bulk_divisor fmt (larger ri rj) rho eps ri rj)
      else Fin 0)"
  by (simp add: bulk_candidate_def larger_def)

lemma larger_Fin: "larger (Fin a) (Fin b) = Fin (max a b)"
  by (simp add: larger_def fgt_def max_def)

lemma larger_swap:
  "ri \<noteq> NaN \<Longrightarrow> rj \<noteq> NaN \<Longrightarrow> \<not> opposite_zeros ri rj \<Longrightarrow> larger ri rj = larger rj ri"
  by (cases ri; cases rj) (auto simp: larger_def fgt_def opposite_zeros_def)

lemma bulk_divisor_NaN: "fadd fmt ri rj = NaN \<Longrightarrow> bulk_divisor fmt r rho eps ri rj = NaN"
  by (simp add: bulk_divisor_def fmul_NaN)

lemma bulk_candidate_swap:
  assumes "\<not> opposite_zeros ri rj"
  shows "bulk_candidate fmt l g0 rho eps ri rj = bulk_candidate fmt l g0 rho eps rj ri"
proof (cases "ri = NaN \<or> rj = NaN")
  case True
  then have "fadd fmt ri rj = NaN" "fadd fmt rj ri = NaN"
    by (auto simp: fadd_NaN)
  then show ?thesis
    by (simp add: bulk_candidate_def bulk_divisor_NaN fdiv_NaN_right)
next
  case False
  then have "larger ri rj = larger rj ri" using assms by (intro larger_swap) auto
  then show ?thesis
    by (simp add: bulk_candidate_larger bulk_divisor_def fadd_commute [of fmt ri rj])
qed

lemma const_candidate_swap:
  "const_candidate fmt l g0 rho eps ri rj = const_candidate fmt l g0 rho eps rj ri"
  by (simp add: const_candidate_def const_divisor_def fadd_commute [of fmt ri rj])

lemma raw_candidate_unguarded:
  "\<not> (fgt (rho p) (Fin 0) \<and> fgt (eps p) (Fin 0))
     \<Longrightarrow> raw_candidate fmt obj g0 rho eps i j p = Fin 0"
  by (auto simp: raw_candidate_def bulk_candidate_def const_candidate_def)

lemma raw_candidate_guarded:
  "fgt (rho p) (Fin 0) \<Longrightarrow> fgt (eps p) (Fin 0)
     \<Longrightarrow> raw_candidate fmt obj g0 rho eps i j p
           = fdiv fmt (fmul fmt (l_m obj) (g0 p)) (raw_divisor fmt obj rho eps i j p)"
  by (simp add: raw_candidate_def raw_divisor_def bulk_candidate_larger const_candidate_def)

lemma stored_raw_candidate:
  "well_formed fmt \<Longrightarrow> stored fmt (raw_candidate fmt obj g0 rho eps i j p)"
proof (cases "fgt (rho p) (Fin 0) \<and> fgt (eps p) (Fin 0)")
  case True
  assume "well_formed fmt"
  then show ?thesis using True by (simp add: raw_candidate_guarded stored_fdiv)
next
  case False
  assume "well_formed fmt"
  then show ?thesis using False
    by (simp add: raw_candidate_unguarded stored_def well_formed_def)
qed

lemma raw_candidate_swap_const:
  "growthModel_m obj = ''CONSTANT'' \<or> growthModel_m obj = ''KINETIC''
     \<Longrightarrow> raw_candidate fmt obj g0 rho eps i j p = raw_candidate fmt obj g0 rho eps j i p"
  by (auto simp: raw_candidate_def
      const_candidate_swap [of _ _ _ _ _ "(abscissae_m obj ! i) p"])

lemma raw_candidate_swap_bulk:
  "\<not> opposite_zeros ((abscissae_m obj ! i) p) ((abscissae_m obj ! j) p)
     \<Longrightarrow> raw_candidate fmt obj g0 rho eps i j p = raw_candidate fmt obj g0 rho eps j i p"
  by (simp add: raw_candidate_def
      bulk_candidate_swap [of "(abscissae_m obj ! i) p"]
      const_candidate_swap [of _ _ _ _ _ "(abscissae_m obj ! i) p"])

text \<open>A zero among the factors of the divisor.\<close>

lemma fmul_zero_right: "is_zero s \<Longrightarrow> zero_or_nan (fmul fmt x s)"
  by (cases x) (auto simp: fmul_def is_zero_def zero_or_nan_def signed_zero_def split: if_splits)

lemma fmul_zero_left: "zero_or_nan x \<Longrightarrow> zero_or_nan (fmul fmt x y)"
  by (cases y) (auto simp: fmul_def is_zero_def zero_or_nan_def signed_zero_def split: if_splits)

lemma const_divisor_zero_sum:
  "is_zero (fadd fmt ri rj) \<Longrightarrow> zero_or_nan (const_divisor fmt rho eps ri rj)"
  by (simp add: const_divisor_def fmul_zero_right fmul_zero_left)

lemma bulk_divisor_zero_sum:
  "is_zero (fadd fmt ri rj) \<Longrightarrow> zero_or_nan (bulk_divisor fmt r rho eps ri rj)"
  by (simp add: bulk_divisor_def fmul_zero_right fmul_zero_left)

lemma bulk_divisor_zero_radius:
  assumes "is_zero r"
  shows "zero_or_nan (bulk_divisor fmt r rho eps ri rj)"
proof -
  have "zero_or_nan r" using assms by (simp add: zero_or_nan_def)
  then show ?thesis by (simp add: bulk_divisor_def fmul_zero_left)
qed

lemma fmul_finite_zero: "finite_dbl x \<Longrightarrow> is_zero s \<Longrightarrow> is_zero (fmul fmt x s)"
  by (cases x) (auto simp: fmul_def is_zero_def finite_dbl_def signed_zero_def split: if_splits)

lemma fmul_zero_finite: "is_zero z \<Longrightarrow> finite_dbl y \<Longrightarrow> is_zero (fmul fmt z y)"
  by (cases y) (auto simp: fmul_def is_zero_def finite_dbl_def signed_zero_def split: if_splits)

lemma is_zero_finite: "is_zero z \<Longrightarrow> finite_dbl z"
  by (auto simp: is_zero_def finite_dbl_def)

lemma raw_divisor_head:
  "raw_divisor fmt obj rho eps i j p
     = fmul fmt (fmul fmt (fmul fmt (divisor_head fmt obj rho i j p)
           (fadd fmt ((abscissae_m obj ! i) p) ((abscissae_m obj ! j) p)))
           (fadd fmt ((abscissae_m obj ! i) p) ((abscissae_m obj ! j) p))) (eps p)"
  by (simp add: raw_divisor_def divisor_head_def bulk_divisor_def const_divisor_def)

lemma raw_divisor_zero_sum:
  assumes "is_zero (fadd fmt ((abscissae_m obj ! i) p) ((abscissae_m obj ! j) p))"
      and "finite_dbl (divisor_head fmt obj rho i j p)"
      and "finite_dbl (eps p)"
  shows "is_zero (raw_divisor fmt obj rho eps i j p)"
proof -
  let ?s = "fadd fmt ((abscissae_m obj ! i) p) ((abscissae_m obj ! j) p)"
  have a: "is_zero (fmul fmt (divisor_head fmt obj rho i j p) ?s)"
    using assms(2,1) by (rule fmul_finite_zero)
  have b: "is_zero (fmul fmt (fmul fmt (divisor_head fmt obj rho i j p) ?s) ?s)"
    using a is_zero_finite [OF assms(1)] by (rule fmul_zero_finite)
  show ?thesis
    unfolding raw_divisor_head using b assms(3) by (rule fmul_zero_finite)
qed

lemma pair_index_bound:
  assumes "i < N" "j < N" shows "i * N + j < N * (N::nat)"
proof -
  have "i * N + j < i * N + N" using assms by simp
  also have "\<dots> = Suc i * N" by simp
  also have "\<dots> \<le> N * N" using assms by (simp only: mult_le_mono1 Suc_leI)
  finally show ?thesis .
qed

section \<open>What evaluate writes\<close>

lemma bulk_efficiency_apply:
  "bulk_efficiency fmt l g0 rho eps ri rj p
     = saturate fmt (clamp (bulk_candidate fmt l (g0 p) (rho p) (eps p) (ri p) (rj p)))"
  by (simp add: bulk_efficiency_def)

lemma const_efficiency_apply:
  "const_efficiency fmt l g0 rho eps ri rj p
     = saturate fmt (clamp (const_candidate fmt l (g0 p) (rho p) (eps p) (ri p) (rj p)))"
  by (simp add: const_efficiency_def)

lemma evaluate_returns:
  assumes m: "recognized (growthModel_m obj)"
      and b: "bound_to obj g0 rho eps"
      and ne: "results \<noteq> []"
      and room: "length (abscissae_m obj) * length (abscissae_m obj) \<le> length results"
  shows "\<exists>rs'. evaluate fmt obj results = Inr rs'
          \<and> length rs' = length results
          \<and> (\<forall>i j p. i < length (abscissae_m obj) \<longrightarrow> j < length (abscissae_m obj) \<longrightarrow>
                (rs' ! (i * length (abscissae_m obj) + j)) p
                  = saturate fmt (clamp (raw_candidate fmt obj g0 rho eps i j p)))
          \<and> (\<forall>k. length (abscissae_m obj) * length (abscissae_m obj) \<le> k \<longrightarrow> rs' ! k = results ! k)"
proof -
  define N where "N = length (abscissae_m obj)"
  define fb where "fb = (\<lambda>i j. bulk_efficiency fmt (l_m obj) g0 rho eps (abscissae_m obj ! i) (abscissae_m obj ! j))"
  define fc where "fc = (\<lambda>i j. const_efficiency fmt (l_m obj) g0 rho eps (abscissae_m obj ! i) (abscissae_m obj ! j))"
  have bb: "bulk_pair fmt obj i j = Inr (fb i j)" for i j
    using b by (simp add: bulk_pair_def bound_to_def fb_def)
  have bc: "const_pair fmt obj i j = Inr (fc i j)" for i j
    using b by (simp add: const_pair_def bound_to_def fc_def)
  have room': "0 + (N - 0) * N \<le> length results" using room N_def by simp
  have idx: "(i * N + j) div N = i \<and> (i * N + j) mod N = j \<and> i * N + j < N * N"
    if "i < N" "j < N" for i j
  proof -
    have "i * N + j < i * N + N" using that by simp
    also have "\<dots> = Suc i * N" by simp
    also have "\<dots> \<le> N * N" using that by (simp only: mult_le_mono1 Suc_leI)
    finally show ?thesis using that by simp
  qed
  have gen: "\<exists>rs'. map_sum id snd (outer_loop body N 0 0 results) = Inr rs'
          \<and> length rs' = length results
          \<and> (\<forall>i j. i < N \<longrightarrow> j < N \<longrightarrow> rs' ! (i * N + j) = f i j)
          \<and> (\<forall>k. N * N \<le> k \<longrightarrow> rs' ! k = results ! k)"
    if body: "\<And>i j. body i j = Inr (f i j)" for body f
  proof -
    from outer_loop_spec [of N body f 0 0 results] body room'
    obtain rs' where r: "outer_loop body N 0 0 results = Inr (N * N, rs')"
      and len: "length rs' = length results"
      and nth: "\<And>m. rs' ! m = (if m < N * N then f (m div N) (m mod N) else results ! m)"
      by auto
    have "rs' ! (i * N + j) = f i j" if "i < N" "j < N" for i j
      using nth [of "i * N + j"] idx [OF that] by simp
    moreover have "rs' ! k = results ! k" if "N * N \<le> k" for k
      using nth [of k] that by simp
    ultimately show ?thesis using r len by simp
  qed
  consider (bulk) "growthModel_m obj = ''BULK_DIFFUSION'' \<or> growthModel_m obj = ''MONOSURFACE''"
    | (const) "growthModel_m obj = ''CONSTANT'' \<or> growthModel_m obj = ''KINETIC''"
    using m by (auto simp: recognized_def)
  then show ?thesis
  proof cases
    case bulk
    then have ev: "evaluate fmt obj results = map_sum id snd (outer_loop (bulk_pair fmt obj) N 0 0 results)"
      using ne by (auto simp: evaluate_def N_def)
    have rc: "raw_candidate fmt obj g0 rho eps i j p
        = bulk_candidate fmt (l_m obj) (g0 p) (rho p) (eps p) ((abscissae_m obj ! i) p) ((abscissae_m obj ! j) p)" for i j p
      using bulk by (simp add: raw_candidate_def)
    from gen [of "bulk_pair fmt obj" fb, OF bb]
    obtain rs' where r: "map_sum id snd (outer_loop (bulk_pair fmt obj) N 0 0 results) = Inr rs'"
      and len: "length rs' = length results"
      and nth: "\<And>i j. i < N \<Longrightarrow> j < N \<Longrightarrow> rs' ! (i * N + j) = fb i j"
      and rest: "\<And>k. N * N \<le> k \<Longrightarrow> rs' ! k = results ! k"
      by blast
    have "(rs' ! (i * N + j)) p = saturate fmt (clamp (raw_candidate fmt obj g0 rho eps i j p))"
      if "i < N" "j < N" for i j p
      using nth [OF that] by (simp add: rc fb_def bulk_efficiency_apply)
    then show ?thesis
      unfolding ev N_def [symmetric] using r len rest by simp
  next
    case const
    then have ev: "evaluate fmt obj results = map_sum id snd (outer_loop (const_pair fmt obj) N 0 0 results)"
      using ne by (auto simp: evaluate_def N_def)
    have rc: "raw_candidate fmt obj g0 rho eps i j p
        = const_candidate fmt (l_m obj) (g0 p) (rho p) (eps p) ((abscissae_m obj ! i) p) ((abscissae_m obj ! j) p)" for i j p
      using const by (auto simp add: raw_candidate_def)
    from gen [of "const_pair fmt obj" fc, OF bc]
    obtain rs' where r: "map_sum id snd (outer_loop (const_pair fmt obj) N 0 0 results) = Inr rs'"
      and len: "length rs' = length results"
      and nth: "\<And>i j. i < N \<Longrightarrow> j < N \<Longrightarrow> rs' ! (i * N + j) = fc i j"
      and rest: "\<And>k. N * N \<le> k \<Longrightarrow> rs' ! k = results ! k"
      by blast
    have "(rs' ! (i * N + j)) p = saturate fmt (clamp (raw_candidate fmt obj g0 rho eps i j p))"
      if "i < N" "j < N" for i j p
      using nth [OF that] by (simp add: rc fc_def const_efficiency_apply)
    then show ?thesis
      unfolding ev N_def [symmetric] using r len rest by simp
  qed
qed

lemma evaluate_value_at:
  assumes "recognized (growthModel_m obj)"
      and "bound_to obj g0 rho eps"
      and "N = length (abscissae_m obj)"
      and "N * N \<le> length results"
      and "i < N" and "j < N"
  shows "value_at (evaluate fmt obj results) (i * N + j) p
           = Some (saturate fmt (clamp (raw_candidate fmt obj g0 rho eps i j p)))"
proof -
  have inb: "i * N + j < N * N" using assms(5,6) by (rule pair_index_bound)
  then have ne: "results \<noteq> []" using assms(4) by auto
  from evaluate_returns [OF assms(1,2) ne, where fmt = fmt] assms(3,4,5,6)
  obtain rs' where r: "evaluate fmt obj results = Inr rs'"
    and len: "length rs' = length results"
    and nth: "(rs' ! (i * N + j)) p = saturate fmt (clamp (raw_candidate fmt obj g0 rho eps i j p))"
    by auto
  show ?thesis using r inb len assms(4) nth by (simp add: value_at_def)
qed

section \<open>The candidate as the growth rate varies\<close>










section \<open>Facts about binding\<close>

lemma push_abscissae_returns:
  "push_abscissae fm ts acc = Inr r \<Longrightarrow> map Some r = map Some acc @ map fm ts"
proof (induction ts arbitrary: acc)
  case Nil
  then show ?case by simp
next
  case (Cons t ts)
  from Cons.prems obtain f where f: "fm t = Some f"
    and rest: "push_abscissae fm ts (acc @ [f]) = Inr r"
    by (auto split: option.splits)
  from Cons.IH [OF rest] f show ?case by simp
qed

lemma bind_fields_returns:
  assumes "bind_fields fm obj = Inr obj'"
  shows "map Some (abscissae_m obj') = map fm (abscissaeTagList_m obj)
       \<and> length (abscissae_m obj') = length (abscissaeTagList_m obj)
       \<and> abscissaeTagList_m obj' = abscissaeTagList_m obj
       \<and> g0_m obj' = fm (growthCoefTag_m obj) \<and> g0_m obj' \<noteq> None
       \<and> eps_m obj' = fm (dissipationTag_m obj) \<and> eps_m obj' \<noteq> None
       \<and> rho_m obj' = fm (densityTag_m obj) \<and> rho_m obj' \<noteq> None
       \<and> growthModel_m obj' = growthModel_m obj \<and> l_m obj' = l_m obj"
proof -
  from assms obtain acc where p: "push_abscissae fm (abscissaeTagList_m obj) [] = Inr acc"
    by (auto simp: bind_fields_def split: sum.splits)
  from assms p obtain g e r where
    f: "fm (growthCoefTag_m obj) = Some g" "fm (dissipationTag_m obj) = Some e"
    "fm (densityTag_m obj) = Some r"
    and o: "obj' = obj\<lparr>abscissae_m := acc, g0_m := Some g, eps_m := Some e, rho_m := Some r\<rparr>"
    by (auto simp: bind_fields_def Let_def split: option.splits)
  have m: "map Some acc = map fm (abscissaeTagList_m obj)"
    using push_abscissae_returns [OF p] by simp
  have "length (map Some acc) = length (map fm (abscissaeTagList_m obj))"
    by (simp only: m)
  then have "length acc = length (abscissaeTagList_m obj)" by simp
  with m o f show ?thesis by simp
qed

section \<open>Facts about binary64\<close>

text \<open>
  Rounding is odd, monotone and idempotent, and it leaves the whole numbers below
  \<^verbatim>\<open>2^53\<close> and the powers of two alone.
\<close>

lemma half_even_of_int [simp]: "half_even (of_int n) = n"
  by (simp add: half_even_def)

lemma half_even_bounds: "x - 1 / 2 \<le> of_int (half_even x)" "of_int (half_even x) \<le> x + 1 / 2"
  unfolding half_even_def Let_def by (auto; linarith)+

lemma half_even_mono:
  assumes "x \<le> y" shows "half_even x \<le> half_even y"
proof (cases "\<lfloor>x\<rfloor> = \<lfloor>y\<rfloor>")
  case True
  then show ?thesis using assms unfolding half_even_def Let_def by auto
next
  case False
  then have lt: "\<lfloor>x\<rfloor> < \<lfloor>y\<rfloor>" using assms floor_mono [of x y] by linarith
  have "half_even x \<le> \<lfloor>x\<rfloor> + 1" unfolding half_even_def Let_def by auto
  moreover have "\<lfloor>y\<rfloor> \<le> half_even y" unfolding half_even_def Let_def by auto
  ultimately show ?thesis using lt by linarith
qed

lemma half_even_neg: "half_even (- x) = - half_even x"
proof (cases "x = of_int \<lfloor>x\<rfloor>")
  case True
  then obtain n :: int where "x = of_int n" by blast
  then have "half_even (- x) = half_even (of_int (- n))" by simp
  also have "\<dots> = - n" by (rule half_even_of_int)
  finally show ?thesis using \<open>x = of_int n\<close> by simp
next
  case False
  then have fl: "\<lfloor>- x\<rfloor> = - \<lfloor>x\<rfloor> - 1"
    by (simp add: floor_minus ceiling_altdef)
  have f: "0 < x - of_int \<lfloor>x\<rfloor>" using False of_int_floor_le [of x] by linarith
  show ?thesis
    unfolding half_even_def Let_def fl using f
    by (auto simp: field_simps)
qed

lemma exponent64_neg [simp]: "exponent64 (- x) = exponent64 x"
  by (simp add: exponent64_def)

lemma exponent64_upper:
  assumes "0 < a" shows "a < 2 powr (of_int (exponent64 a) + 1)"
proof -
  have "log 2 a < of_int \<lfloor>log 2 a\<rfloor> + 1" by linarith
  also have "\<dots> \<le> of_int (exponent64 a) + 1"
    using assms by (simp add: exponent64_def)
  finally have "log 2 a < of_int (exponent64 a) + 1" .
  then show ?thesis using assms by (simp add: log_less_iff)
qed

lemma exponent64_lower:
  assumes "0 < a" "- 1022 < exponent64 a" shows "2 powr of_int (exponent64 a) \<le> a"
proof -
  have "exponent64 a = \<lfloor>log 2 a\<rfloor>" using assms by (simp add: exponent64_def max_def split: if_splits)
  then have "of_int (exponent64 a) \<le> log 2 a" by simp
  then show ?thesis using assms(1) by (simp add: le_log_iff)
qed

lemma exponent64_mono:
  assumes "0 < a" "a \<le> b" shows "exponent64 a \<le> exponent64 b"
proof -
  have "log 2 a \<le> log 2 b" using assms by simp
  then have "\<lfloor>log 2 a\<rfloor> \<le> \<lfloor>log 2 b\<rfloor>" by (rule floor_mono)
  then show ?thesis using assms by (simp add: exponent64_def)
qed

lemma round64_neg: "round64 (- x) = - round64 x"
  by (simp add: round64_def Let_def half_even_neg)

lemma quantum_times:
  fixes e :: real
  shows "2 powr (e - 52) * 2 ^ 53 = 2 powr (e + 1)" "2 powr (e - 52) * 2 ^ 52 = 2 powr e"
proof -
  have a: "(2::real) powr 53 = 2 ^ 53" "(2::real) powr 52 = 2 ^ 52"
    by (rule powr_numeral, simp)+
  have "2 powr (e - 52) * 2 powr 53 = 2 powr (e - 52 + 53)"
    by (rule powr_add [symmetric])
  also have "e - 52 + 53 = e + 1" by simp
  finally show "2 powr (e - 52) * 2 ^ 53 = 2 powr (e + 1)" by (simp only: a)
  have "2 powr (e - 52) * 2 powr 52 = 2 powr (e - 52 + 52)"
    by (rule powr_add [symmetric])
  also have "e - 52 + 52 = e" by simp
  finally show "2 powr (e - 52) * 2 ^ 52 = 2 powr e" by (simp only: a)
qed

lemma round64_pos_upper:
  assumes "0 < x" shows "round64 x \<le> 2 powr (of_int (exponent64 x) + 1)"
proof -
  let ?e = "of_int (exponent64 x) :: real"
  let ?q = "2 powr (?e - 52) :: real"
  have q: "0 < ?q" by simp
  have "x < ?q * 2 ^ 53" using exponent64_upper [OF assms] by (simp only: quantum_times)
  then have "x / ?q \<le> 2 ^ 53" using q by (simp add: pos_divide_le_eq mult.commute)
  then have "half_even (x / ?q) \<le> half_even (of_int (2 ^ 53))"
    by (intro half_even_mono) simp
  then have "half_even (x / ?q) \<le> 2 ^ 53" by (simp only: half_even_of_int)
  then have "(of_int (half_even (x / ?q)) :: real) \<le> 2 ^ 53"
    by (metis of_int_le_iff of_int_numeral of_int_power)
  then have "?q * of_int (half_even (x / ?q)) \<le> ?q * 2 ^ 53"
    using q by (simp only: mult_le_cancel_left_pos)
  then have "?q * of_int (half_even (x / ?q)) \<le> 2 powr (?e + 1)"
    by (simp only: quantum_times)
  then show ?thesis using assms by (simp add: round64_def Let_def)
qed

lemma round64_pos_lower:
  assumes "0 < x" "- 1022 < exponent64 x" shows "2 powr of_int (exponent64 x) \<le> round64 x"
proof -
  let ?e = "of_int (exponent64 x) :: real"
  let ?q = "2 powr (?e - 52) :: real"
  have q: "0 < ?q" by simp
  have "?q * 2 ^ 52 \<le> x" using exponent64_lower [OF assms] by (simp only: quantum_times)
  then have "2 ^ 52 \<le> x / ?q" using q by (simp add: pos_le_divide_eq mult.commute)
  then have "half_even (of_int (2 ^ 52)) \<le> half_even (x / ?q)"
    by (intro half_even_mono) simp
  then have "2 ^ 52 \<le> half_even (x / ?q)" by (simp only: half_even_of_int)
  then have "(2 ^ 52 :: real) \<le> of_int (half_even (x / ?q))"
    by (metis of_int_le_iff of_int_numeral of_int_power)
  then have "?q * 2 ^ 52 \<le> ?q * of_int (half_even (x / ?q))"
    using q by (simp only: mult_le_cancel_left_pos)
  then have "2 powr ?e \<le> ?q * of_int (half_even (x / ?q))"
    by (simp only: quantum_times)
  then show ?thesis using assms by (simp add: round64_def Let_def)
qed

lemma round64_nonneg:
  assumes "0 \<le> x" shows "0 \<le> round64 x"
proof (cases "x = 0")
  case True
  then show ?thesis by (simp add: round64_def)
next
  case False
  let ?q = "2 powr (of_int (exponent64 x) - 52) :: real"
  have "0 \<le> x / ?q" using assms by simp
  then have "half_even (of_int 0) \<le> half_even (x / ?q)" by (intro half_even_mono) simp
  then have "0 \<le> half_even (x / ?q)" by (simp only: half_even_of_int)
  then show ?thesis using False by (simp add: round64_def Let_def)
qed

lemma round64_mono_pos:
  assumes "0 < x" "x \<le> y" shows "round64 x \<le> round64 y"
proof (cases "exponent64 x = exponent64 y")
  case True
  let ?q = "2 powr (of_int (exponent64 y) - 52) :: real"
  have "x / ?q \<le> y / ?q" using assms by (simp add: divide_right_mono)
  then have "half_even (x / ?q) \<le> half_even (y / ?q)" by (rule half_even_mono)
  then have "?q * of_int (half_even (x / ?q)) \<le> ?q * of_int (half_even (y / ?q))"
    by (simp add: mult_left_mono)
  then show ?thesis using assms True by (simp add: round64_def Let_def)
next
  case False
  have y: "0 < y" using assms by simp
  have lt: "exponent64 x < exponent64 y"
    using False exponent64_mono [OF assms] by simp
  have "- 1022 \<le> exponent64 x" by (simp add: exponent64_def)
  then have "- 1022 < exponent64 y" using lt by simp
  from round64_pos_lower [OF y this] have low: "2 powr of_int (exponent64 y) \<le> round64 y" .
  have "of_int (exponent64 x) + 1 \<le> (of_int (exponent64 y) :: real)" using lt by linarith
  then have "2 powr (of_int (exponent64 x) + 1) \<le> (2::real) powr of_int (exponent64 y)"
    by simp
  with round64_pos_upper [OF assms(1)] low show ?thesis by linarith
qed

lemma round64_mono:
  assumes "x \<le> y" shows "round64 x \<le> round64 y"
proof -
  consider "0 < x" | "x \<le> 0" "0 \<le> y" | "y < 0" using assms by linarith
  then show ?thesis
  proof cases
    case 1
    then show ?thesis using assms by (rule round64_mono_pos)
  next
    case 2
    have "0 \<le> round64 (- x)" using 2(1) by (intro round64_nonneg) simp
    then have "round64 x \<le> 0" by (simp add: round64_neg)
    moreover have "0 \<le> round64 y" using 2(2) by (rule round64_nonneg)
    ultimately show ?thesis by linarith
  next
    case 3
    have "round64 (- y) \<le> round64 (- x)" using 3 assms by (intro round64_mono_pos) simp_all
    then show ?thesis by (simp add: round64_neg)
  qed
qed

lemma round64_fix:
  assumes "y \<noteq> 0" "y = 2 powr (of_int k - 52) * of_int m" "exponent64 y = k"
  shows "round64 y = y"
proof -
  let ?q = "2 powr (of_int k - 52) :: real"
  have "y / ?q = of_int m" using assms(2) by simp
  then have "half_even (y / ?q) = m" by (simp only: half_even_of_int)
  then show ?thesis using assms by (simp add: round64_def Let_def)
qed

lemma exponent64_eq:
  assumes "0 < r" "r < 2 powr (of_int e + 1)" "- 1022 \<le> e" "- 1022 < e \<longrightarrow> 2 powr of_int e \<le> r"
  shows "exponent64 r = e"
proof -
  have "log 2 r < of_int e + 1" using assms(1,2) by (simp add: log_less_iff)
  then have up: "\<lfloor>log 2 r\<rfloor> \<le> e" by (simp add: floor_le_iff)
  show ?thesis
  proof (cases "- 1022 < e")
    case True
    then have "of_int e \<le> log 2 r" using assms(1,4) by (simp add: le_log_iff)
    then have "e \<le> \<lfloor>log 2 r\<rfloor>" by (simp add: le_floor_iff)
    then show ?thesis using up True assms(1) by (simp add: exponent64_def)
  next
    case False
    then have "e = - 1022" using assms(3) by simp
    then show ?thesis using up assms(1) by (simp add: exponent64_def)
  qed
qed

lemma round64_idem_pos:
  assumes "0 < x" shows "round64 (round64 x) = round64 x"
proof -
  let ?k = "exponent64 x"
  let ?q = "2 powr (of_int ?k - 52) :: real"
  let ?n = "half_even (x / ?q)"
  have q: "0 < ?q" by simp
  have r: "round64 x = ?q * of_int ?n" using assms by (simp add: round64_def Let_def)
  have k: "- 1022 \<le> ?k" by (simp add: exponent64_def)
  have up: "round64 x \<le> 2 powr (of_int ?k + 1)" using assms by (rule round64_pos_upper)
  show ?thesis
  proof (cases "round64 x = 0")
    case True
    then show ?thesis by (simp add: round64_def)
  next
    case False
    have pos: "0 < round64 x" using False round64_nonneg [of x] assms by simp
    show ?thesis
    proof (cases "round64 x = 2 powr (of_int ?k + 1)")
      case True
      have e: "exponent64 (round64 x) = ?k + 1"
      proof (rule exponent64_eq [OF pos])
        show "round64 x < 2 powr (of_int (?k + 1) + 1)"
          unfolding True by simp
        show "- 1022 \<le> ?k + 1" using k by simp
        show "- 1022 < ?k + 1 \<longrightarrow> 2 powr of_int (?k + 1) \<le> round64 x"
          unfolding True by simp
      qed
      have "round64 x = 2 powr (of_int (?k + 1) - 52) * of_int (2 ^ 52)"
        unfolding True using quantum_times(2) [of "of_int (?k + 1)"] by simp
      from round64_fix [OF False this e] show ?thesis .
    next
      case ne: False
      have lt: "round64 x < 2 powr (of_int ?k + 1)" using up ne by simp
      have e: "exponent64 (round64 x) = ?k"
      proof (rule exponent64_eq [OF pos lt k])
        show "- 1022 < ?k \<longrightarrow> 2 powr of_int ?k \<le> round64 x"
          using round64_pos_lower [OF assms] by simp
      qed
      from round64_fix [OF False r e] show ?thesis .
    qed
  qed
qed

lemma round64_idem: "round64 (round64 x) = round64 x"
proof -
  consider "0 < x" | "x = 0" | "x < 0" by linarith
  then show ?thesis
  proof cases
    case 1
    then show ?thesis by (rule round64_idem_pos)
  next
    case 2
    then show ?thesis by (simp add: round64_def)
  next
    case 3
    then have "round64 (round64 (- x)) = round64 (- x)" by (intro round64_idem_pos) simp
    then show ?thesis by (simp add: round64_neg)
  qed
qed

lemma round64_zero: "round64 0 = 0"
  by (simp add: round64_def)

lemma round64_power_of_two:
  assumes "- 1022 \<le> k" shows "round64 (2 powr of_int k) = 2 powr of_int k"
proof -
  have p: "(0::real) < 2 powr of_int k" by simp
  have e: "exponent64 (2 powr of_int k) = k"
    using assms by (intro exponent64_eq [OF p]) simp_all
  have "(2::real) powr of_int k = 2 powr (of_int k - 52) * of_int (2 ^ 52)"
    using quantum_times(2) [of "of_int k"] by simp
  from round64_fix [OF _ this e] show ?thesis by simp
qed

lemma round64_one: "round64 1 = 1"
  using round64_power_of_two [of 0] by simp

lemma round64_of_int_pos:
  assumes "0 < m" "m < 2 ^ 53" shows "round64 (of_int m) = of_int m"
proof -
  let ?y = "of_int m :: real"
  let ?k = "exponent64 ?y"
  have "1 \<le> m" using assms(1) by simp
  then have y1: "1 \<le> ?y" by (simp only: of_int_1_le_iff)
  have "?y < of_int (2 ^ 53)" using assms(2) by (simp only: of_int_less_iff)
  then have y2: "?y < 2 ^ 53" by simp
  note y = y1 y2
  have "0 \<le> log 2 ?y" using y(1) by simp
  then have f0: "0 \<le> \<lfloor>log 2 ?y\<rfloor>" by simp
  have ab: "\<bar>?y\<bar> = ?y" using y(1) by simp
  have k0: "0 \<le> ?k" unfolding exponent64_def ab using f0 by linarith
  have "?y < 2 powr 53" using y(2) by simp
  then have "log 2 ?y < 53" using y(1) by (simp add: log_less_iff)
  then have f52: "\<lfloor>log 2 ?y\<rfloor> \<le> 52" by (simp add: floor_le_iff)
  have k52: "?k \<le> 52" unfolding exponent64_def ab using f52 by linarith
  define n where "n = nat (52 - ?k)"
  have n: "real n = 52 - of_int ?k" using k52 by (simp add: n_def)
  have "(2::real) ^ n = 2 powr real n" by (simp add: powr_realpow)
  then have "2 powr (of_int ?k - 52) * (2::real) ^ n = 2 powr (of_int ?k - 52 + real n)"
    by (simp only: powr_add)
  also have "\<dots> = 1" using n by simp
  finally have one: "2 powr (of_int ?k - 52) * (2::real) ^ n = 1" .
  have "?y = 2 powr (of_int ?k - 52) * of_int (m * 2 ^ n)"
  proof -
    have "2 powr (of_int ?k - 52) * of_int (m * 2 ^ n)
        = ?y * (2 powr (of_int ?k - 52) * (2::real) ^ n)"
      by simp
    then show ?thesis by (simp only: one mult_1_right)
  qed
  from round64_fix [OF _ this refl] show ?thesis using assms(1) by simp
qed

lemma round64_of_int:
  assumes "\<bar>m\<bar> < 2 ^ 53" shows "round64 (of_int m) = of_int m"
proof -
  consider "0 < m" | "m = 0" | "m < 0" by linarith
  then show ?thesis
  proof cases
    case 1
    then show ?thesis using assms by (intro round64_of_int_pos) simp_all
  next
    case 2
    then show ?thesis by (simp add: round64_def)
  next
    case 3
    then have "round64 (of_int (- m)) = of_int (- m)"
      using assms by (intro round64_of_int_pos) simp_all
    then show ?thesis by (simp add: round64_neg)
  qed
qed

lemma round64_numeral:
  "numeral w < (2::int) ^ 53 \<Longrightarrow> round64 (numeral w) = numeral w"
  "numeral w < (2::int) ^ 53 \<Longrightarrow> round64 (- numeral w) = - numeral w"
  using round64_of_int [of "numeral w"] round64_of_int [of "- numeral w"] by simp_all

lemma round64_half: "round64 (1 / 2) = 1 / 2" "round64 (- 1 / 2) = - (1 / 2)"
proof -
  have "(2::real) powr of_int (- 1) = 1 / 2" by (simp add: powr_minus_divide)
  then show a: "round64 (1 / 2) = 1 / 2" using round64_power_of_two [of "- 1"] by simp
  have "round64 (- (1 / 2)) = - round64 (1 / 2)" by (rule round64_neg)
  then show "round64 (- 1 / 2) = - (1 / 2)" using a by simp
qed

lemma round64_two_to_53: "round64 9007199254740992 = 9007199254740992"
  using round64_power_of_two [of 53] by (simp add: powr_numeral)

lemma round64_two_to_53_plus_one: "round64 9007199254740993 = 9007199254740992"
proof -
  have p: "(0::real) < 9007199254740993" by simp
  have e: "exponent64 9007199254740993 = 53"
    by (rule exponent64_eq [OF p]) (simp_all add: powr_numeral)
  have q: "(2::real) powr (of_int 53 - 52) = 2" by simp
  show ?thesis
    by (simp add: round64_def e q half_even_def Let_def)
qed

lemma round64_three_quarters: "round64 (3 / 4) = 3 / 4"
proof -
  have h: "(2::real) powr of_int (- 1) = 1 / 2" by (simp add: powr_minus_divide)
  have p: "(0::real) < 3 / 4" by simp
  have e: "exponent64 (3 / 4) = - 1"
    by (rule exponent64_eq [OF p]) (simp_all add: h)
  have "(2::real) powr (of_int (- 1) - 52) = 1 / 2 ^ 53"
    by (simp add: powr_minus_divide powr_numeral)
  then have "(3 / 4 :: real) = 2 powr (of_int (- 1) - 52) * of_int 6755399441055744"
    by simp
  from round64_fix [OF _ this e] show ?thesis by simp
qed

lemma round64_quarter: "round64 (1 / 4) = 1 / 4"
proof -
  have h: "(2::real) powr of_int (- 2) = 1 / 4" by (simp add: powr_minus_divide)
  have "round64 (2 powr of_int (- 2)) = 2 powr of_int (- 2)"
    by (rule round64_power_of_two) simp_all
  then show ?thesis unfolding h .
qed

lemma round64_two_to_54: "round64 18014398509481984 = 18014398509481984"
  using round64_power_of_two [of 54] by (simp add: powr_numeral)

lemma round64_two_to_54_plus_one: "round64 18014398509481985 = 18014398509481984"
proof -
  have p: "(0::real) < 18014398509481985" by simp
  have e: "exponent64 18014398509481985 = 54"
    by (rule exponent64_eq [OF p]) (simp_all add: powr_numeral)
  have q: "(2::real) powr (of_int 54 - 52) = 4" by simp
  show ?thesis
    by (simp add: round64_def e q half_even_def Let_def)
qed

lemma well_formed_binary64: "well_formed binary64"
  unfolding well_formed_def binary64_def
  using round64_mono round64_idem round64_zero round64_one by simp

lemmas binary64_values =
  binary64_def round64_neg round64_zero round64_one round64_numeral(1) round64_half(1)
  round64_quarter round64_three_quarters round64_two_to_53 round64_two_to_53_plus_one
  round64_two_to_54 round64_two_to_54_plus_one

section \<open>Running the examples\<close>

lemma well_formed_unrounded: "well_formed unrounded"
  by (simp add: well_formed_def unrounded_def)

lemmas arithmetic =
  fadd_def fmul_def fdiv_def fgt_def deliver_def signed_zero_def signed_inf_def Let_def

lemmas kernel =
  raw_candidate_def bulk_candidate_def const_candidate_def bulk_divisor_def
  const_divisor_def clamp_def saturate_def uniform_def scenario_def

section \<open>The claims\<close>

subsection \<open>C1\<close>

text \<open>
  C1, as stated: for every recognized model, every pair and every point the efficiency
  written by \<^verbatim>\<open>evaluate\<close> is finite and in \<open>[0, 1)\<close>, whatever the input fields hold.
  It fails in two ways. CONSTANT with \<open>l = 1\<close>, growth, density and dissipation \<open>1\<close> and
  the one radius \<open>0\<close> passes the guard, divides \<open>1\<close> by \<open>0\<close>, and the infinite candidate
  gives \<^verbatim>\<open>inf / (1 + inf)\<close>, a NaN. And with the growth \<^verbatim>\<open>2^53\<close> and the radius \<open>1 / 2\<close>
  the divisor is \<open>1\<close>, the candidate \<^verbatim>\<open>2^53\<close>, the sum \<^verbatim>\<open>1 + 2^53\<close> rounds to \<^verbatim>\<open>2^53\<close>,
  and the efficiency is \<open>1\<close>.
\<close>

theorem efficiency_range_counterexample:
  "recognized ''CONSTANT''
   \<and> value_at (evaluate binary64 (scenario ''CONSTANT'' 1 1 1 1 [0]) [uniform (Fin 0)]) 0 ()
       = Some NaN
   \<and> \<not> in_unit_interval NaN
   \<and> value_at (evaluate binary64 (scenario ''CONSTANT'' 1 9007199254740992 1 1 [1 / 2])
        [uniform (Fin 0)]) 0 ()
       = Some (Fin 1)
   \<and> \<not> in_unit_interval (Fin 1)"
  by (simp add: recognized_def value_at_def evaluate_def scenario_def const_pair_def
      const_efficiency_def const_candidate_def const_divisor_def clamp_def saturate_def
      uniform_def outer_loop.simps inner_loop.simps arithmetic binary64_values)

text \<open>
  C1, amended: for every recognized model, every pair \<open>(i, j)\<close> and every point,
  \<^verbatim>\<open>evaluate\<close> returns, and the efficiency it has written is a NaN if the raw candidate
  is \<open>+\<infinity>\<close> and a number in \<open>[0, 1]\<close> in every other case, whatever the inputs are.
  The bound \<open>1\<close> is reached: \<open>1 + x\<close> may round to \<open>x\<close>.
\<close>

theorem efficiency_range:
  assumes "well_formed fmt"
      and "recognized (growthModel_m obj)"
      and "bound_to obj g0 rho eps"
      and "N = length (abscissae_m obj)"
      and "N * N \<le> length results"
      and "i < N" and "j < N"
  shows "\<exists>v. value_at (evaluate fmt obj results) (i * N + j) p = Some v
            \<and> (if raw_candidate fmt obj g0 rho eps i j p = PInf then v = NaN
               else in_closed_unit_interval v)"
  using evaluate_value_at [OF assms(2-7), of fmt p]
    saturate_clamp_range [OF assms(1) stored_raw_candidate [OF assms(1)],
      of obj g0 rho eps i j p]
  by simp

text \<open>
  In binary64, CONSTANT with the growth \<^verbatim>\<open>2^53\<close> and the radius \<open>1 / 2\<close> has the candidate
  \<^verbatim>\<open>2^53\<close> and the efficiency \<open>1\<close>; with the radius \<open>0\<close> the candidate is \<open>+\<infinity>\<close> and the
  efficiency a NaN.
\<close>

theorem efficiency_range_witness:
  "well_formed binary64
   \<and> raw_candidate binary64 (scenario ''CONSTANT'' 1 9007199254740992 1 1 [1 / 2])
        (uniform (Fin 9007199254740992)) (uniform (Fin 1)) (uniform (Fin 1)) 0 0 ()
       = Fin 9007199254740992
   \<and> value_at (evaluate binary64 (scenario ''CONSTANT'' 1 9007199254740992 1 1 [1 / 2])
        [uniform NaN]) (0 * 1 + 0) () = Some (Fin 1)
   \<and> in_closed_unit_interval (Fin 1)
   \<and> raw_candidate binary64 (scenario ''CONSTANT'' 1 9007199254740992 1 1 [0])
        (uniform (Fin 9007199254740992)) (uniform (Fin 1)) (uniform (Fin 1)) 0 0 () = PInf
   \<and> value_at (evaluate binary64 (scenario ''CONSTANT'' 1 9007199254740992 1 1 [0]) [uniform NaN])
        (0 * 1 + 0) () = Some NaN"
proof -
  let ?a = "scenario ''CONSTANT'' 1 9007199254740992 1 1 [1 / 2]
      :: (nat, unit) aggregation_efficiency"
  let ?b = "scenario ''CONSTANT'' 1 9007199254740992 1 1 [0]
      :: (nat, unit) aggregation_efficiency"
  let ?g = "uniform (Fin 9007199254740992) :: unit field"
  let ?rs = "[uniform NaN] :: unit field list"
  have a1: "recognized (growthModel_m ?a)" and b1: "recognized (growthModel_m ?b)"
    by (simp_all add: scenario_def recognized_def)
  have a2: "bound_to ?a ?g (uniform (Fin 1)) (uniform (Fin 1))"
    and b2: "bound_to ?b ?g (uniform (Fin 1)) (uniform (Fin 1))"
    by (simp_all add: scenario_def bound_to_def)
  have a3: "1 = length (abscissae_m ?a)" and b3: "1 = length (abscissae_m ?b)"
    by (simp_all add: scenario_def)
  have h4: "1 * 1 \<le> length ?rs" and h5: "(0::nat) < 1" by simp_all
  have ca: "raw_candidate binary64 ?a ?g (uniform (Fin 1)) (uniform (Fin 1)) 0 0 ()
      = Fin 9007199254740992"
    by (simp add: kernel arithmetic binary64_values)
  have cb: "raw_candidate binary64 ?b ?g (uniform (Fin 1)) (uniform (Fin 1)) 0 0 () = PInf"
    by (simp add: kernel arithmetic binary64_values)
  have va: "value_at (evaluate binary64 ?a ?rs) (0 * 1 + 0) ()
      = Some (saturate binary64 (clamp (Fin 9007199254740992)))"
    using evaluate_value_at [OF a1 a2 a3 h4 h5 h5, of binary64 "()"] ca by simp
  have "saturate binary64 (clamp (Fin 9007199254740992)) = Fin 1"
    by (simp add: kernel arithmetic binary64_values)
  then have va': "value_at (evaluate binary64 ?a ?rs) (0 * 1 + 0) () = Some (Fin 1)"
    using va by simp
  from efficiency_range [OF well_formed_binary64 b1 b2 b3 h4 h5 h5, of "()"] cb
  have vb: "value_at (evaluate binary64 ?b ?rs) (0 * 1 + 0) () = Some NaN"
    by auto
  from efficiency_range [OF well_formed_binary64 a1 a2 a3 h4 h5 h5, of "()"] ca va'
  have "in_closed_unit_interval (Fin 1)" by auto
  with well_formed_binary64 ca cb va' vb show ?thesis by blast
qed

subsection \<open>C2\<close>

text \<open>
  C2: the guard of the candidate tests the density and the dissipation and nothing about
  the radii. Where both are positive, for every recognized model and every pair,
  \<^verbatim>\<open>evaluate\<close> writes what clamp and saturation make of the division of \<open>l * g0\<close> by
  the divisor; that divisor is a zero or a NaN whenever \<open>r_i + r_j\<close> is a zero, and, for
  BULK_DIFFUSION and MONOSURFACE, whenever the larger radius is a zero: it is a number
  other than zero only if \<open>r_i + r_j\<close> and that radius are not zero. Where \<open>r_i + r_j\<close>
  is a zero the divisor is a zero, and not a NaN, if the factors around \<open>r_i + r_j\<close> are
  finite. And there are such inputs: with density and dissipation \<open>1\<close> and both radii
  \<open>0\<close> the guard holds and the divisor of either family is \<open>0\<close>.
\<close>

theorem guard_admits_zero_divisor:
  assumes "recognized (growthModel_m obj)"
      and "bound_to obj g0 rho eps"
      and "N = length (abscissae_m obj)"
      and "N * N \<le> length results"
      and "i < N" and "j < N"
      and "fgt (rho p) (Fin 0)" and "fgt (eps p) (Fin 0)"
  shows "value_at (evaluate fmt obj results) (i * N + j) p
           = Some (saturate fmt (clamp (fdiv fmt (fmul fmt (l_m obj) (g0 p))
                                          (raw_divisor fmt obj rho eps i j p))))
       \<and> (is_zero (fadd fmt ((abscissae_m obj ! i) p) ((abscissae_m obj ! j) p))
            \<longrightarrow> zero_or_nan (raw_divisor fmt obj rho eps i j p))
       \<and> ((growthModel_m obj = ''BULK_DIFFUSION'' \<or> growthModel_m obj = ''MONOSURFACE'')
            \<and> is_zero (larger ((abscissae_m obj ! i) p) ((abscissae_m obj ! j) p))
            \<longrightarrow> zero_or_nan (raw_divisor fmt obj rho eps i j p))
       \<and> (is_zero (fadd fmt ((abscissae_m obj ! i) p) ((abscissae_m obj ! j) p))
            \<and> finite_dbl (divisor_head fmt obj rho i j p) \<and> finite_dbl (eps p)
            \<longrightarrow> is_zero (raw_divisor fmt obj rho eps i j p))
       \<and> fgt (Fin 1) (Fin 0)
       \<and> is_zero (fadd fmt (Fin 0) (Fin 0))
       \<and> const_divisor fmt (Fin 1) (Fin 1) (Fin 0) (Fin 0) = Fin 0
       \<and> bulk_divisor fmt (larger (Fin 0) (Fin 0)) (Fin 1) (Fin 1) (Fin 0) (Fin 0) = Fin 0"
proof -
  have v: "value_at (evaluate fmt obj results) (i * N + j) p
           = Some (saturate fmt (clamp (fdiv fmt (fmul fmt (l_m obj) (g0 p))
                                          (raw_divisor fmt obj rho eps i j p))))"
    using evaluate_value_at [OF assms(1-6), of fmt p]
      raw_candidate_guarded [where rho = rho and eps = eps and p = p and fmt = fmt
        and obj = obj and ?g0.0 = g0 and i = i and j = j, OF assms(7,8)]
    by simp
  have s: "zero_or_nan (raw_divisor fmt obj rho eps i j p)"
    if "is_zero (fadd fmt ((abscissae_m obj ! i) p) ((abscissae_m obj ! j) p))"
    using that by (simp add: raw_divisor_def const_divisor_zero_sum bulk_divisor_zero_sum)
  have r: "zero_or_nan (raw_divisor fmt obj rho eps i j p)"
    if "growthModel_m obj = ''BULK_DIFFUSION'' \<or> growthModel_m obj = ''MONOSURFACE''"
      "is_zero (larger ((abscissae_m obj ! i) p) ((abscissae_m obj ! j) p))"
    using that by (auto simp add: raw_divisor_def bulk_divisor_zero_radius)
  have e: "fgt (Fin 1) (Fin 0)" "is_zero (fadd fmt (Fin 0) (Fin 0))"
    "const_divisor fmt (Fin 1) (Fin 1) (Fin 0) (Fin 0) = Fin 0"
    "bulk_divisor fmt (larger (Fin 0) (Fin 0)) (Fin 1) (Fin 1) (Fin 0) (Fin 0) = Fin 0"
    by (simp_all add: fgt_def is_zero_def fadd_def fmul_def signed_zero_def larger_def
        const_divisor_def bulk_divisor_def)
  have f: "is_zero (raw_divisor fmt obj rho eps i j p)"
    if "is_zero (fadd fmt ((abscissae_m obj ! i) p) ((abscissae_m obj ! j) p))"
      "finite_dbl (divisor_head fmt obj rho i j p)" "finite_dbl (eps p)"
    using that by (rule raw_divisor_zero_sum)
  show ?thesis using v s r f e by blast
qed

text \<open>
  Density and dissipation \<open>1\<close>, radii \<open>0\<close> and \<open>0\<close>, \<open>l * g0 = 2\<close>: past the guard the
  divisor of both families is \<open>0\<close>, the candidate \<open>+\<infinity>\<close> and the efficiency a NaN.
\<close>

theorem guard_admits_zero_divisor_witness:
  "fgt (Fin 1) (Fin 0)
   \<and> is_zero (fadd binary64 (Fin 0) (Fin 0))
   \<and> is_zero (larger (Fin 0) (Fin 0))
   \<and> finite_dbl (divisor_head binary64 (scenario ''BULK_DIFFUSION'' 1 2 1 1 [0, 0])
        (uniform (Fin 1)) 0 1 ())
   \<and> finite_dbl (divisor_head binary64 (scenario ''KINETIC'' 1 2 1 1 [0, 0])
        (uniform (Fin 1)) 0 1 ())
   \<and> finite_dbl (Fin 1)
   \<and> raw_divisor binary64 (scenario ''BULK_DIFFUSION'' 1 2 1 1 [0, 0])
        (uniform (Fin 1)) (uniform (Fin 1)) 0 1 () = Fin 0
   \<and> raw_divisor binary64 (scenario ''KINETIC'' 1 2 1 1 [0, 0])
        (uniform (Fin 1)) (uniform (Fin 1)) 0 1 () = Fin 0
   \<and> value_at (evaluate binary64 (scenario ''BULK_DIFFUSION'' 1 2 1 1 [0, 0])
        (replicate 4 (uniform (Fin 7)))) (0 * 2 + 1) () = Some NaN
   \<and> value_at (evaluate binary64 (scenario ''KINETIC'' 1 2 1 1 [0, 0])
        (replicate 4 (uniform (Fin 7)))) (0 * 2 + 1) () = Some NaN"
proof -
  let ?a = "scenario ''BULK_DIFFUSION'' 1 2 1 1 [0, 0] :: (nat, unit) aggregation_efficiency"
  let ?b = "scenario ''KINETIC'' 1 2 1 1 [0, 0] :: (nat, unit) aggregation_efficiency"
  let ?rs = "replicate 4 (uniform (Fin 7)) :: unit field list"
  have a1: "recognized (growthModel_m ?a)" and b1: "recognized (growthModel_m ?b)"
    by (simp_all add: scenario_def recognized_def)
  have a2: "bound_to ?a (uniform (Fin 2)) (uniform (Fin 1)) (uniform (Fin 1))"
    and b2: "bound_to ?b (uniform (Fin 2)) (uniform (Fin 1)) (uniform (Fin 1))"
    by (simp_all add: scenario_def bound_to_def)
  have a3: "2 = length (abscissae_m ?a)" and b3: "2 = length (abscissae_m ?b)"
    by (simp_all add: scenario_def)
  have h4: "2 * 2 \<le> length ?rs" and h5: "(0::nat) < 2" and h6: "(1::nat) < 2" by simp_all
  have h7: "fgt (uniform (Fin 1) ()) (Fin 0)" by (simp add: uniform_def fgt_def)
  have z: "fgt (Fin 1) (Fin 0)" "is_zero (fadd binary64 (Fin 0) (Fin 0))"
    "is_zero (larger (Fin 0) (Fin 0))"
    by (simp_all add: fgt_def is_zero_def fadd_def signed_zero_def larger_def)
  have da: "raw_divisor binary64 ?a (uniform (Fin 1)) (uniform (Fin 1)) 0 1 () = Fin 0"
    and db: "raw_divisor binary64 ?b (uniform (Fin 1)) (uniform (Fin 1)) 0 1 () = Fin 0"
    by (simp_all add: raw_divisor_def larger_def kernel arithmetic)
  have fa: "finite_dbl (divisor_head binary64 ?a (uniform (Fin 1)) 0 1 ())"
    and fb: "finite_dbl (divisor_head binary64 ?b (uniform (Fin 1)) 0 1 ())"
    and fe: "finite_dbl (Fin 1)"
    by (simp_all add: finite_dbl_def divisor_head_def larger_def kernel arithmetic)
  have la: "l_m ?a = Fin 1" "l_m ?b = Fin 1" by (simp_all add: scenario_def)
  have q: "saturate binary64 (clamp (fdiv binary64 (fmul binary64 (Fin 1) (Fin 2)) (Fin 0)))
      = NaN"
    by (simp add: kernel arithmetic binary64_values)
  from guard_admits_zero_divisor [where fmt = binary64 and results = ?rs,
      OF a1 a2 a3 h4 h5 h6 h7 h7] da la q
  have va: "value_at (evaluate binary64 ?a ?rs) (0 * 2 + 1) () = Some NaN"
    by (simp add: uniform_def)
  from guard_admits_zero_divisor [where fmt = binary64 and results = ?rs,
      OF b1 b2 b3 h4 h5 h6 h7 h7] db la q
  have vb: "value_at (evaluate binary64 ?b ?rs) (0 * 2 + 1) () = Some NaN"
    by (simp add: uniform_def)
  show ?thesis using z fa fb fe da db va vb by blast
qed

subsection \<open>C3\<close>

text \<open>
  C3: for every recognized model and every pair \<open>(i, j)\<close>, at every point where the
  density is \<open>\<le> 0\<close> or the dissipation is \<open>\<le> 0\<close>, \<^verbatim>\<open>evaluate\<close> returns and the
  efficiency it has written is exactly \<open>0\<close>, whatever the other inputs are and whatever
  the format rounds to.
\<close>

theorem degenerate_inputs_give_zero:
  assumes "recognized (growthModel_m obj)"
      and "bound_to obj g0 rho eps"
      and "N = length (abscissae_m obj)"
      and "N * N \<le> length results"
      and "i < N" and "j < N"
      and "fle (rho p) (Fin 0) \<or> fle (eps p) (Fin 0)"
  shows "value_at (evaluate fmt obj results) (i * N + j) p = Some (Fin 0)"
proof -
  have "\<not> (fgt (rho p) (Fin 0) \<and> fgt (eps p) (Fin 0))"
    using assms(7) fle_zero_not_gt by blast
  then have "raw_candidate fmt obj g0 rho eps i j p = Fin 0"
    by (rule raw_candidate_unguarded)
  then show ?thesis
    using evaluate_value_at [OF assms(1-6), of fmt p]
    by (simp add: saturate_clamp_zero fgt_def)
qed

text \<open>Scenario 1 of the specification: the density is \<open>0\<close>; pair \<open>(1, 0)\<close>.\<close>

theorem degenerate_inputs_give_zero_witness:
  "recognized ''CONSTANT''
   \<and> (fle (Fin 0) (Fin 0) \<or> fle (Fin 5) (Fin 0))
   \<and> value_at (evaluate unrounded (scenario ''CONSTANT'' 1 2 0 5 [1, 2])
                (replicate 4 (uniform NaN))) (1 * 2 + 0) () = Some (Fin 0)"
proof -
  let ?obj = "scenario ''CONSTANT'' 1 2 0 5 [1, 2] :: (nat, unit) aggregation_efficiency"
  let ?rs = "replicate 4 (uniform NaN) :: unit field list"
  have h1: "recognized (growthModel_m ?obj)" by (simp add: scenario_def recognized_def)
  have h2: "bound_to ?obj (uniform (Fin 2)) (uniform (Fin 0)) (uniform (Fin 5))"
    by (simp add: scenario_def bound_to_def)
  have h3: "2 = length (abscissae_m ?obj)" by (simp add: scenario_def)
  have h4: "2 * 2 \<le> length ?rs" by simp
  have h5: "(1::nat) < 2" and h6: "(0::nat) < 2" by simp_all
  have h7: "fle (uniform (Fin 0) ()) (Fin 0) \<or> fle (uniform (Fin 5) ()) (Fin 0)"
    by (simp add: uniform_def fle_def fgt_def)
  from degenerate_inputs_give_zero [where fmt = unrounded, OF h1 h2 h3 h4 h5 h6 h7]
  show ?thesis by (simp add: recognized_def fle_def fgt_def)
qed

subsection \<open>C4\<close>

text \<open>
  C4, as stated: for BULK_DIFFUSION and MONOSURFACE the candidate divides by the larger
  radius, so for all inputs the output for \<open>(i, j)\<close> equals the output for \<open>(j, i)\<close>.
  It fails for the radii \<^verbatim>\<open>+0.0\<close> and \<^verbatim>\<open>-0.0\<close>: \<^verbatim>\<open>ri > rj\<close> is false in both orders,
  so each pair divides by its own \<open>rj\<close>; with \<open>l\<close>, growth, density and dissipation \<open>1\<close>
  the pair \<open>(0, 1)\<close> divides by \<^verbatim>\<open>-0.0\<close>, has the candidate \<open>-\<infinity>\<close> and the efficiency
  \<open>0\<close>, and the pair \<open>(1, 0)\<close> divides by \<^verbatim>\<open>+0.0\<close>, has the candidate \<open>+\<infinity>\<close> and the
  efficiency NaN.
\<close>

theorem bulk_pairs_symmetric_counterexample:
  "value_at (evaluate binary64
       (scenario ''BULK_DIFFUSION'' 1 1 1 1 [0, 0]
          \<lparr>abscissae_m := [uniform (Fin 0), uniform NZero]\<rparr>)
       (replicate 4 (uniform (Fin 7)))) (0 * 2 + 1) () = Some (Fin 0)
   \<and> value_at (evaluate binary64
       (scenario ''BULK_DIFFUSION'' 1 1 1 1 [0, 0]
          \<lparr>abscissae_m := [uniform (Fin 0), uniform NZero]\<rparr>)
       (replicate 4 (uniform (Fin 7)))) (1 * 2 + 0) () = Some NaN"
proof -
  let ?obj = "scenario ''BULK_DIFFUSION'' 1 1 1 1 [0, 0]
      \<lparr>abscissae_m := [uniform (Fin 0), uniform NZero]\<rparr> :: (nat, unit) aggregation_efficiency"
  let ?rs = "replicate 4 (uniform (Fin 7)) :: unit field list"
  have h1: "recognized (growthModel_m ?obj)" by (simp add: scenario_def recognized_def)
  have h2: "bound_to ?obj (uniform (Fin 1)) (uniform (Fin 1)) (uniform (Fin 1))"
    by (simp add: scenario_def bound_to_def)
  have h3: "2 = length (abscissae_m ?obj)" by (simp add: scenario_def)
  have h4: "2 * 2 \<le> length ?rs" by simp
  have h5: "(0::nat) < 2" and h6: "(1::nat) < 2" by simp_all
  have a: "saturate binary64 (clamp (raw_candidate binary64 ?obj (uniform (Fin 1))
      (uniform (Fin 1)) (uniform (Fin 1)) 0 1 ())) = Fin 0"
    by (simp add: kernel arithmetic binary64_values)
  have b: "saturate binary64 (clamp (raw_candidate binary64 ?obj (uniform (Fin 1))
      (uniform (Fin 1)) (uniform (Fin 1)) 1 0 ())) = NaN"
    by (simp add: kernel arithmetic binary64_values)
  show ?thesis
    using evaluate_value_at [OF h1 h2 h3 h4 h5 h6, of binary64 "()"]
      evaluate_value_at [OF h1 h2 h3 h4 h6 h5, of binary64 "()"] a b
    by simp
qed

text \<open>
  C4, amended: for BULK_DIFFUSION and MONOSURFACE, for all \<open>i, j < N\<close> and every point:
  where density and dissipation are positive, \<^verbatim>\<open>evaluate\<close> writes what clamp and
  saturation make of \<open>l * g0\<close> divided by
  \<^verbatim>\<open>r * rho * (ri + rj) * (ri + rj) * eps\<close> with \<open>r\<close> the radius picked by
  \<^verbatim>\<open>ri > rj\<close>, which is \<open>max(r_i, r_j)\<close> when the radii are numbers; and wherever the two
  radii are not \<^verbatim>\<open>+0.0\<close> with \<^verbatim>\<open>-0.0\<close>, the values written for \<open>(i, j)\<close> and for
  \<open>(j, i)\<close> are equal, whatever the inputs are otherwise and whatever the format rounds to.
\<close>

theorem bulk_pairs_symmetric:
  assumes "growthModel_m obj = ''BULK_DIFFUSION'' \<or> growthModel_m obj = ''MONOSURFACE''"
      and "bound_to obj g0 rho eps"
      and "N = length (abscissae_m obj)"
      and "N * N \<le> length results"
      and "i < N" and "j < N"
  shows "(fgt (rho p) (Fin 0) \<and> fgt (eps p) (Fin 0) \<longrightarrow>
            value_at (evaluate fmt obj results) (i * N + j) p
              = Some (saturate fmt (clamp (fdiv fmt (fmul fmt (l_m obj) (g0 p))
                   (bulk_divisor fmt
                      (larger ((abscissae_m obj ! i) p) ((abscissae_m obj ! j) p))
                      (rho p) (eps p) ((abscissae_m obj ! i) p) ((abscissae_m obj ! j) p))))))
       \<and> ((abscissae_m obj ! i) p = Fin a \<and> (abscissae_m obj ! j) p = Fin b \<longrightarrow>
            larger ((abscissae_m obj ! i) p) ((abscissae_m obj ! j) p) = Fin (max a b))
       \<and> (\<not> opposite_zeros ((abscissae_m obj ! i) p) ((abscissae_m obj ! j) p) \<longrightarrow>
            (\<exists>v. value_at (evaluate fmt obj results) (i * N + j) p = Some v
                \<and> value_at (evaluate fmt obj results) (j * N + i) p = Some v))"
proof -
  have r: "recognized (growthModel_m obj)" using assms(1) by (auto simp: recognized_def)
  note ij = evaluate_value_at [OF r assms(2-6), of fmt p]
  note ji = evaluate_value_at [OF r assms(2,3,4,6,5), of fmt p]
  have f: "value_at (evaluate fmt obj results) (i * N + j) p
              = Some (saturate fmt (clamp (fdiv fmt (fmul fmt (l_m obj) (g0 p))
                   (bulk_divisor fmt
                      (larger ((abscissae_m obj ! i) p) ((abscissae_m obj ! j) p))
                      (rho p) (eps p) ((abscissae_m obj ! i) p) ((abscissae_m obj ! j) p)))))"
    if "fgt (rho p) (Fin 0)" "fgt (eps p) (Fin 0)"
    using ij that assms(1) by (auto simp: raw_candidate_def bulk_candidate_larger)
  have m: "larger ((abscissae_m obj ! i) p) ((abscissae_m obj ! j) p) = Fin (max a b)"
    if "(abscissae_m obj ! i) p = Fin a" "(abscissae_m obj ! j) p = Fin b"
    using that by (simp add: larger_Fin)
  have s: "\<exists>v. value_at (evaluate fmt obj results) (i * N + j) p = Some v
                \<and> value_at (evaluate fmt obj results) (j * N + i) p = Some v"
    if "\<not> opposite_zeros ((abscissae_m obj ! i) p) ((abscissae_m obj ! j) p)"
    using ij ji raw_candidate_swap_bulk [OF that, of fmt g0 rho eps] by simp
  show ?thesis using f m s by blast
qed

text \<open>
  The radii \<open>1\<close> and \<open>3\<close> of scenario 3 of the specification with the growth rate \<open>48\<close>:
  the larger is \<open>3\<close>, the divisor \<open>48\<close>, the candidate \<open>1\<close>, and the pairs \<open>(0, 1)\<close> and
  \<open>(1, 0)\<close> both get \<open>1 / 2\<close>.
\<close>

theorem bulk_pairs_symmetric_witness:
  "fgt (Fin 1) (Fin 0)
   \<and> \<not> opposite_zeros (Fin 1) (Fin 3)
   \<and> larger (Fin 1) (Fin 3) = Fin (max 1 3)
   \<and> value_at (evaluate binary64 (scenario ''BULK_DIFFUSION'' 1 48 1 1 [1, 3])
                (replicate 4 (uniform NaN))) (0 * 2 + 1) () = Some (Fin (1 / 2))
   \<and> value_at (evaluate binary64 (scenario ''BULK_DIFFUSION'' 1 48 1 1 [1, 3])
                (replicate 4 (uniform NaN))) (1 * 2 + 0) () = Some (Fin (1 / 2))"
proof -
  let ?obj = "scenario ''BULK_DIFFUSION'' 1 48 1 1 [1, 3] :: (nat, unit) aggregation_efficiency"
  let ?rs = "replicate 4 (uniform NaN) :: unit field list"
  have h1: "growthModel_m ?obj = ''BULK_DIFFUSION'' \<or> growthModel_m ?obj = ''MONOSURFACE''"
    by (simp add: scenario_def)
  have h2: "bound_to ?obj (uniform (Fin 48)) (uniform (Fin 1)) (uniform (Fin 1))"
    by (simp add: scenario_def bound_to_def)
  have h3: "2 = length (abscissae_m ?obj)" by (simp add: scenario_def)
  have h4: "2 * 2 \<le> length ?rs" by simp
  have h5: "(0::nat) < 2" and h6: "(1::nat) < 2" by simp_all
  have g: "fgt (uniform (Fin 1) ()) (Fin 0)" "fgt (Fin 1) (Fin 0)"
    by (simp_all add: uniform_def fgt_def)
  have ri: "(abscissae_m ?obj ! 0) () = Fin 1" and rj: "(abscissae_m ?obj ! 1) () = Fin 3"
    by (simp_all add: scenario_def uniform_def)
  have nz: "\<not> opposite_zeros (Fin 1) (Fin 3)" by (simp add: opposite_zeros_def)
  have q: "saturate binary64 (clamp (fdiv binary64 (fmul binary64 (Fin 1) (Fin 48))
      (bulk_divisor binary64 (Fin (max 1 3)) (Fin 1) (Fin 1) (Fin 1) (Fin 3)))) = Fin (1 / 2)"
    by (simp add: kernel arithmetic binary64_values)
  note t = bulk_pairs_symmetric [where fmt = binary64 and results = ?rs and p = "()"
      and a = 1 and b = 3, OF h1 h2 h3 h4 h5 h6]
  from t ri rj have l: "larger (Fin 1) (Fin 3) = Fin (max 1 3)" by simp
  from t g ri rj l q have v: "value_at (evaluate binary64 ?obj ?rs) (0 * 2 + 1) ()
      = Some (Fin (1 / 2))"
    by (simp add: scenario_def uniform_def)
  from t nz ri rj v have "value_at (evaluate binary64 ?obj ?rs) (1 * 2 + 0) ()
      = Some (Fin (1 / 2))"
    by auto
  with g nz l v show ?thesis by blast
qed

subsection \<open>C5\<close>

text \<open>
  C5: when the growth model is none of the four names, \<^verbatim>\<open>evaluate\<close> on a non-empty
  result vector returns it as it was: no field is written.
\<close>

theorem unrecognized_model_writes_nothing:
  assumes "\<not> recognized (growthModel_m obj)" and "results \<noteq> []"
  shows "evaluate fmt obj results = Inr results"
  using assms by (simp add: evaluate_def recognized_def)

text \<open>A growth model named \<open>LINEAR\<close>, two radii, four result fields holding \<open>7\<close>.\<close>

theorem unrecognized_model_writes_nothing_witness:
  "evaluate unrounded (scenario ''LINEAR'' 1 2 1 1 [1, 2]) (replicate 4 (uniform (Fin 7)))
     = Inr (replicate 4 (uniform (Fin 7)))"
proof -
  have h1: "\<not> recognized (growthModel_m (scenario ''LINEAR'' 1 2 1 1 [1, 2]))"
    by (simp add: scenario_def recognized_def)
  have h2: "replicate 4 (uniform (Fin 7)) \<noteq> []" by simp
  from unrecognized_model_writes_nothing [OF h1 h2] show ?thesis .
qed

subsection \<open>C6\<close>




subsection \<open>C7\<close>

text \<open>
  C7: for CONSTANT and KINETIC, for all \<open>i, j < N\<close> and all inputs whatever,
  \<^verbatim>\<open>evaluate\<close> returns and has written the same value for the pair \<open>(i, j)\<close> as for
  the pair \<open>(j, i)\<close>, at every point, whatever the format rounds to: the candidate
  reads the radii through their sum.
\<close>

theorem const_pairs_symmetric:
  assumes "growthModel_m obj = ''CONSTANT'' \<or> growthModel_m obj = ''KINETIC''"
      and "bound_to obj g0 rho eps"
      and "N = length (abscissae_m obj)"
      and "N * N \<le> length results"
      and "i < N" and "j < N"
  shows "const_candidate fmt l g rho' eps' ri rj = const_candidate fmt l g rho' eps' rj ri
       \<and> (\<exists>v. value_at (evaluate fmt obj results) (i * N + j) p = Some v
             \<and> value_at (evaluate fmt obj results) (j * N + i) p = Some v)"
proof -
  have r: "recognized (growthModel_m obj)" using assms(1) by (auto simp: recognized_def)
  have "value_at (evaluate fmt obj results) (j * N + i) p
      = Some (saturate fmt (clamp (raw_candidate fmt obj g0 rho eps i j p)))"
    using evaluate_value_at [OF r assms(2,3,4,6,5), of fmt p]
      raw_candidate_swap_const [OF assms(1), of fmt g0 rho eps i j p]
    by simp
  then show ?thesis
    using evaluate_value_at [OF r assms(2-6), of fmt p]
      const_candidate_swap [of fmt l g rho' eps' ri rj]
    by simp
qed

text \<open>KINETIC with radii \<open>1\<close> and \<open>2\<close>: the pairs \<open>(0, 1)\<close> and \<open>(1, 0)\<close> both get \<open>2 / 11\<close>.\<close>

theorem const_pairs_symmetric_witness:
  "value_at (evaluate unrounded (scenario ''KINETIC'' 1 2 1 1 [1, 2])
                (replicate 4 (uniform NaN))) (0 * 2 + 1) () = Some (Fin (2 / 11))
   \<and> value_at (evaluate unrounded (scenario ''KINETIC'' 1 2 1 1 [1, 2])
                (replicate 4 (uniform NaN))) (1 * 2 + 0) () = Some (Fin (2 / 11))"
proof -
  let ?obj = "scenario ''KINETIC'' 1 2 1 1 [1, 2] :: (nat, unit) aggregation_efficiency"
  let ?rs = "replicate 4 (uniform NaN) :: unit field list"
  have h1: "growthModel_m ?obj = ''CONSTANT'' \<or> growthModel_m ?obj = ''KINETIC''"
    by (simp add: scenario_def)
  have h2: "bound_to ?obj (uniform (Fin 2)) (uniform (Fin 1)) (uniform (Fin 1))"
    by (simp add: scenario_def bound_to_def)
  have h3: "2 = length (abscissae_m ?obj)" by (simp add: scenario_def)
  have h4: "2 * 2 \<le> length ?rs" by simp
  have h5: "(0::nat) < 2" and h6: "(1::nat) < 2" by simp_all
  have h0: "recognized (growthModel_m ?obj)" by (simp add: scenario_def recognized_def)
  have "saturate unrounded (clamp (raw_candidate unrounded ?obj (uniform (Fin 2))
          (uniform (Fin 1)) (uniform (Fin 1)) 0 1 ())) = Fin (2 / 11)"
    by (simp add: kernel arithmetic unrounded_def)
  then have v: "value_at (evaluate unrounded ?obj ?rs) (0 * 2 + 1) () = Some (Fin (2 / 11))"
    using evaluate_value_at [OF h0 h2 h3 h4 h5 h6, of unrounded "()"] by simp
  from const_pairs_symmetric [where fmt = unrounded and p = "()", OF h1 h2 h3 h4 h5 h6] v
  show ?thesis by simp
qed

subsection \<open>C8\<close>

text \<open>
  C8: for every recognized model and every pair \<open>(i, j)\<close>, at every point where density
  and dissipation are positive and the raw candidate is negative, \<^verbatim>\<open>evaluate\<close> returns
  and the efficiency it has written is exactly \<open>0\<close>.
\<close>

theorem negative_candidate_clamped:
  assumes "recognized (growthModel_m obj)"
      and "bound_to obj g0 rho eps"
      and "N = length (abscissae_m obj)"
      and "N * N \<le> length results"
      and "i < N" and "j < N"
      and "fgt (rho p) (Fin 0)" and "fgt (eps p) (Fin 0)"
      and "flt (raw_candidate fmt obj g0 rho eps i j p) (Fin 0)"
  shows "value_at (evaluate fmt obj results) (i * N + j) p = Some (Fin 0)"
  using evaluate_value_at [OF assms(1-6), of fmt p] flt_zero_not_gt [OF assms(9)]
  by (simp add: saturate_clamp_zero)

text \<open>
  Scenario 4 of the specification, for BULK_DIFFUSION: growth \<open>-1\<close>, density and
  dissipation \<open>1\<close>, radii \<open>1\<close> and \<open>1\<close>; the raw candidate is \<open>-1 / 4\<close>.
\<close>

theorem negative_candidate_clamped_witness:
  "fgt (Fin 1) (Fin 0)
   \<and> raw_candidate unrounded (scenario ''BULK_DIFFUSION'' 1 (- 1) 1 1 [1, 1])
        (uniform (Fin (- 1))) (uniform (Fin 1)) (uniform (Fin 1)) 0 1 () = Fin (- 1 / 4)
   \<and> flt (Fin (- 1 / 4)) (Fin 0)
   \<and> value_at (evaluate unrounded (scenario ''BULK_DIFFUSION'' 1 (- 1) 1 1 [1, 1])
                (replicate 4 (uniform NaN))) (0 * 2 + 1) () = Some (Fin 0)"
proof -
  let ?obj = "scenario ''BULK_DIFFUSION'' 1 (- 1) 1 1 [1, 1] :: (nat, unit) aggregation_efficiency"
  let ?rs = "replicate 4 (uniform NaN) :: unit field list"
  have h1: "recognized (growthModel_m ?obj)" by (simp add: scenario_def recognized_def)
  have h2: "bound_to ?obj (uniform (Fin (- 1))) (uniform (Fin 1)) (uniform (Fin 1))"
    by (simp add: scenario_def bound_to_def)
  have h3: "2 = length (abscissae_m ?obj)" by (simp add: scenario_def)
  have h4: "2 * 2 \<le> length ?rs" by simp
  have h5: "(0::nat) < 2" and h6: "(1::nat) < 2" by simp_all
  have h7: "fgt (uniform (Fin 1) ()) (Fin 0)" by (simp add: uniform_def fgt_def)
  have c: "raw_candidate unrounded ?obj (uniform (Fin (- 1))) (uniform (Fin 1))
      (uniform (Fin 1)) 0 1 () = Fin (- 1 / 4)"
    by (simp add: kernel arithmetic unrounded_def)
  have h9: "flt (raw_candidate unrounded ?obj (uniform (Fin (- 1))) (uniform (Fin 1))
      (uniform (Fin 1)) 0 1 ()) (Fin 0)"
    unfolding c by (simp add: flt_def fgt_def)
  from negative_candidate_clamped [OF h1 h2 h3 h4 h5 h6 h7 h7 h9] c
  show ?thesis by (simp add: flt_def fgt_def)
qed

subsection \<open>C9\<close>

text \<open>
  C9: for every recognized model, \<^verbatim>\<open>evaluate\<close> returns when the result vector has
  room for \<open>N\<^sup>2\<close> fields, and it has written exactly the first \<open>N\<^sup>2\<close> of them: the field
  at index \<open>i * N + j\<close> holds the efficiency of the pair \<open>(i, j)\<close>, every index below
  \<open>N\<^sup>2\<close> is such an index, and the fields from \<open>N\<^sup>2\<close> on are as they were.
\<close>

theorem evaluate_row_major:
  assumes "recognized (growthModel_m obj)"
      and "bound_to obj g0 rho eps"
      and "N = length (abscissae_m obj)"
      and "results \<noteq> []"
      and "N * N \<le> length results"
  shows "\<exists>rs'. evaluate fmt obj results = Inr rs'
          \<and> length rs' = length results
          \<and> (\<forall>i<N. \<forall>j<N. rs' ! (i * N + j)
                = (\<lambda>p. saturate fmt (clamp (raw_candidate fmt obj g0 rho eps i j p))))
          \<and> (\<forall>k<N * N. rs' ! k
                = (\<lambda>p. saturate fmt (clamp (raw_candidate fmt obj g0 rho eps (k div N) (k mod N) p))))
          \<and> (\<forall>k\<ge>N * N. rs' ! k = results ! k)"
proof -
  from evaluate_returns [OF assms(1,2,4), where fmt = fmt] assms(3,5)
  obtain rs' where r: "evaluate fmt obj results = Inr rs'"
    and len: "length rs' = length results"
    and nth: "\<And>i j p. i < N \<Longrightarrow> j < N \<Longrightarrow>
        (rs' ! (i * N + j)) p = saturate fmt (clamp (raw_candidate fmt obj g0 rho eps i j p))"
    and rest: "\<And>k. N * N \<le> k \<Longrightarrow> rs' ! k = results ! k"
    by auto
  have pair: "rs' ! (i * N + j) = (\<lambda>p. saturate fmt (clamp (raw_candidate fmt obj g0 rho eps i j p)))"
    if "i < N" "j < N" for i j
    using nth [OF that] by (simp add: fun_eq_iff)
  have "rs' ! k = (\<lambda>p. saturate fmt (clamp (raw_candidate fmt obj g0 rho eps (k div N) (k mod N) p)))"
    if "k < N * N" for k
  proof -
    have "0 < N" using that by (cases N) simp_all
    then have "k div N < N" "k mod N < N"
      using that by (simp_all add: less_mult_imp_div_less)
    from pair [OF this] show ?thesis by simp
  qed
  with r len pair rest show ?thesis by simp
qed

text \<open>
  Scenario 3 of the specification, with a fifth result field that no pair owns: pair
  \<open>(0, 1)\<close> is at index \<open>1\<close>, index \<open>3\<close> is pair \<open>(1, 1)\<close>, and index \<open>4\<close> keeps its field.
\<close>

theorem evaluate_row_major_witness:
  "recognized ''BULK_DIFFUSION''
   \<and> value_at (evaluate unrounded (scenario ''BULK_DIFFUSION'' 1 4 1 1 [1, 3])
                (replicate 5 (uniform (Fin 7)))) (0 * 2 + 1) () = Some (Fin (1 / 13))
   \<and> value_at (evaluate unrounded (scenario ''BULK_DIFFUSION'' 1 4 1 1 [1, 3])
                (replicate 5 (uniform (Fin 7)))) 3 () = Some (Fin (1 / 28))
   \<and> value_at (evaluate unrounded (scenario ''BULK_DIFFUSION'' 1 4 1 1 [1, 3])
                (replicate 5 (uniform (Fin 7)))) 4 () = Some (Fin 7)"
proof -
  let ?obj = "scenario ''BULK_DIFFUSION'' 1 4 1 1 [1, 3] :: (nat, unit) aggregation_efficiency"
  let ?rs = "replicate 5 (uniform (Fin 7)) :: unit field list"
  have h1: "recognized (growthModel_m ?obj)" by (simp add: scenario_def recognized_def)
  have h2: "bound_to ?obj (uniform (Fin 4)) (uniform (Fin 1)) (uniform (Fin 1))"
    by (simp add: scenario_def bound_to_def)
  have h3: "2 = length (abscissae_m ?obj)" by (simp add: scenario_def)
  have h4: "?rs \<noteq> []" by simp
  have h5: "2 * 2 \<le> length ?rs" by simp
  from evaluate_row_major [where fmt = unrounded, OF h1 h2 h3 h4 h5]
  obtain rs' where r: "evaluate unrounded ?obj ?rs = Inr rs'" and len: "length rs' = 5"
    and a: "\<forall>i<2. \<forall>j<2. rs' ! (i * 2 + j)
                = (\<lambda>p. saturate unrounded (clamp (raw_candidate unrounded ?obj (uniform (Fin 4)) (uniform (Fin 1)) (uniform (Fin 1)) i j p)))"
    and b: "\<forall>k<2 * 2. rs' ! k
                = (\<lambda>p. saturate unrounded (clamp (raw_candidate unrounded ?obj (uniform (Fin 4)) (uniform (Fin 1)) (uniform (Fin 1)) (k div 2) (k mod 2) p)))"
    and c: "\<forall>k\<ge>2 * 2. rs' ! k = ?rs ! k"
    by auto
  have v1: "(rs' ! (0 * 2 + 1)) () = Fin (1 / 13)"
    using a [rule_format, of 0 1] by (simp add: kernel arithmetic unrounded_def)
  have v3: "(rs' ! 3) () = Fin (1 / 28)"
    using b [rule_format, of 3] by (simp add: kernel arithmetic unrounded_def)
  have v4: "(rs' ! 4) () = Fin 7"
    using c [rule_format, of 4] by (simp add: uniform_def)
  show ?thesis using h1 r len v1 v3 v4 by (simp add: value_at_def scenario_def)
qed

subsection \<open>C10\<close>

text \<open>
  C10: \<^verbatim>\<open>bind_fields\<close> starts from an empty \<^verbatim>\<open>abscissae_\<close>, whatever the vector held
  before. After any sequence of one or more calls that return, from any state of the
  object, the vector holds the field of each abscissa tag under the last field manager,
  one per tag and in the order of the tags; so the \<open>N\<close> of \<^verbatim>\<open>evaluate\<close>, the length of
  the vector, is the number of abscissa tags, which no call changes.
\<close>

theorem bind_fields_rebinds:
  assumes "bind_calls fms obj = Inr obj'" and "fms \<noteq> []"
  shows "map Some (abscissae_m obj') = map (last fms) (abscissaeTagList_m obj)
       \<and> length (abscissae_m obj') = length (abscissaeTagList_m obj)
       \<and> abscissaeTagList_m obj' = abscissaeTagList_m obj"
  using assms
proof (induction fms arbitrary: obj)
  case Nil
  then show ?case by simp
next
  case (Cons fm fms)
  from Cons.prems(1) obtain o1 where b: "bind_fields fm obj = Inr o1"
    and rest: "bind_calls fms o1 = Inr obj'"
    by (auto split: sum.splits)
  note one = bind_fields_returns [OF b]
  show ?case
  proof (cases "fms = []")
    case True
    then have "obj' = o1" using rest by simp
    then show ?thesis using one True by simp
  next
    case False
    from Cons.IH [OF rest False] one False show ?thesis by simp
  qed
qed

text \<open>
  Three calls on a freshly constructed object with two abscissa tags: the vector has
  two fields, those of the third field manager.
\<close>

theorem bind_fields_rebinds_witness:
  "[\<lambda>t. Some (uniform (Fin 1)), \<lambda>t. Some (uniform (Fin 2)), \<lambda>t. Some (uniform (Fin 3))] \<noteq> []
   \<and> (\<exists>obj'. bind_calls
          [\<lambda>t. Some (uniform (Fin 1)), \<lambda>t. Some (uniform (Fin 2)), \<lambda>t. Some (uniform (Fin 3))]
          (AggregationEfficiency [0, 1] 2 3 4 (Fin 1) ''CONSTANT''
             :: (nat, unit) aggregation_efficiency) = Inr obj'
        \<and> abscissae_m obj' = [uniform (Fin 3), uniform (Fin 3)]
        \<and> length (abscissae_m obj') = 2)"
proof -
  let ?fms = "[\<lambda>t. Some (uniform (Fin 1)), \<lambda>t. Some (uniform (Fin 2)), \<lambda>t. Some (uniform (Fin 3))]
      :: (nat \<Rightarrow> unit field option) list"
  let ?obj = "AggregationEfficiency [0, 1] 2 3 4 (Fin 1) ''CONSTANT''
      :: (nat, unit) aggregation_efficiency"
  have h2: "?fms \<noteq> []" by simp
  obtain obj' where h1: "bind_calls ?fms ?obj = Inr obj'"
    by (simp add: bind_fields_def AggregationEfficiency_def)
  from bind_fields_rebinds [OF h1 h2]
  have "map Some (abscissae_m obj') = map Some [uniform (Fin 3), uniform (Fin 3)]"
    and "length (abscissae_m obj') = 2"
    by (simp_all add: AggregationEfficiency_def)
  then have "abscissae_m obj' = [uniform (Fin 3), uniform (Fin 3)]"
    and "length (abscissae_m obj') = 2"
    by (simp_all only: inj_map_eq_map [OF inj_Some])
  with h1 h2 show ?thesis by blast
qed

end
